theory Spec2Isabelle
  imports Main "HOL-Library.Multiset" "HOL-Library.Sublist" "HOL-Library.AList"
begin

section \<open>Data model of \<^verbatim>\<open>parse_metrics.py\<close>\<close>

text \<open>
  A Python dict with string keys and string values is an association list; the
  lookup \<^verbatim>\<open>d.get(k, default)\<close> is \<open>dict_get\<close> and the assignment \<^verbatim>\<open>d[k] = v\<close> is
  \<open>AList.update\<close> (replace the value in place, or append a new key).
\<close>

type_synonym dict = "(string \<times> string) list"

definition dict_get :: "dict \<Rightarrow> string \<Rightarrow> string \<Rightarrow> string" where
  "dict_get d k dflt = (case map_of d k of None \<Rightarrow> dflt | Some v \<Rightarrow> v)"

text \<open>
  One telemetry event, as \<^verbatim>\<open>json.loads\<close> gives it: the fields the program reads are
  \<^verbatim>\<open>ev["timestamp"]\<close> (an integer of nanoseconds), \<^verbatim>\<open>ev["body"]\<close> and
  \<^verbatim>\<open>ev["resources_string"]\<close>. A \<open>char\<close> is a code point from 0 to 255, so a string is a
  Python \<^verbatim>\<open>str\<close> of code points below 256.
\<close>

record event =
  timestamp :: int
  body :: string
  resources_string :: dict

text \<open>The dataclass \<^verbatim>\<open>DebugSession\<close>, field by field (a leading underscore is dropped).\<close>

record DebugSession =
  user_id :: string
  da_session_id :: string
  ext_session_id :: string
  start_ts :: int
  end_ts :: int
  events :: "event list"
  step_count :: int
  breakpoint_ops :: int
  frame_switches :: int
  dbt_frame_switches :: int
  pause_count :: int
  continue_count :: int
  jump_count :: int
  signal_count :: int
  variable_examinations :: int
  unique_sessions_viewed :: "string set"
  step_start_times :: "int list"
  step_durations :: "int list"
  pause_start_times :: "int list"
  pause_durations :: "int list"
  in_stepping :: bool
  last_step_ts :: int
  is_paused :: bool
  last_pause_ts :: int

text \<open>
  The constructor call \<^verbatim>\<open>DebugSession(user_id=uid, da_session_id=da_sid, start_ts=init_ts,
  end_ts=end_ts)\<close>: every other field takes its default.
\<close>

definition new_session :: "string \<Rightarrow> string \<Rightarrow> int \<Rightarrow> int \<Rightarrow> DebugSession" where
  "new_session uid da_sid init_ts e_ts =
     \<lparr> user_id = uid, da_session_id = da_sid, ext_session_id = [],
       start_ts = init_ts, end_ts = e_ts, events = [],
       step_count = 0, breakpoint_ops = 0, frame_switches = 0, dbt_frame_switches = 0,
       pause_count = 0, continue_count = 0, jump_count = 0, signal_count = 0,
       variable_examinations = 0, unique_sessions_viewed = {},
       step_start_times = [], step_durations = [],
       pause_start_times = [], pause_durations = [],
       in_stepping = False, last_step_ts = 0, is_paused = False, last_pause_ts = 0 \<rparr>"

text \<open>\<^verbatim>\<open>float("inf")\<close> beside integer timestamps.\<close>

datatype ext_ts = Ts int | PosInf

fun ts_min :: "ext_ts \<Rightarrow> ext_ts \<Rightarrow> ext_ts" where
  "ts_min (Ts a) (Ts b) = (if b < a then Ts b else Ts a)"
| "ts_min (Ts a) PosInf = Ts a"
| "ts_min PosInf b = b"

fun ts_le :: "ext_ts \<Rightarrow> ext_ts \<Rightarrow> bool" where
  "ts_le (Ts a) (Ts b) = (a \<le> b)"
| "ts_le (Ts a) PosInf = True"
| "ts_le PosInf (Ts b) = False"
| "ts_le PosInf PosInf = True"

datatype py_error = IndexError

section \<open>\<^verbatim>\<open>parse_activity\<close>\<close>

text \<open>
  The character classes of the two regular expressions, for a \<^verbatim>\<open>str\<close> pattern and the
  code points below 256. \<^verbatim>\<open>\s\<close> is the characters with \<^verbatim>\<open>isspace()\<close>: tab to carriage
  return, the four separators \<^verbatim>\<open>0x1c\<close> to \<^verbatim>\<open>0x1f\<close>, the blank, next-line \<^verbatim>\<open>0x85\<close> and the
  no-break space \<^verbatim>\<open>0xa0\<close>. \<^verbatim>\<open>\w\<close> is the underscore and the characters with \<^verbatim>\<open>isalnum()\<close>:
  the ASCII letters and digits, the ordinal indicators \<^verbatim>\<open>0xaa\<close> and \<^verbatim>\<open>0xba\<close>, the micro sign
  \<^verbatim>\<open>0xb5\<close>, the superscript digits \<^verbatim>\<open>0xb2\<close>, \<^verbatim>\<open>0xb3\<close>, \<^verbatim>\<open>0xb9\<close>, the fractions \<^verbatim>\<open>0xbc\<close> to
  \<^verbatim>\<open>0xbe\<close>, and the letters from \<^verbatim>\<open>0xc0\<close> to \<^verbatim>\<open>0xff\<close> without the multiplication sign
  \<^verbatim>\<open>0xd7\<close> and the division sign \<^verbatim>\<open>0xf7\<close>.
\<close>

definition is_space :: "char \<Rightarrow> bool" where
  "is_space c = (let n = (of_char c :: nat) in
     (9 \<le> n \<and> n \<le> 13) \<or> (28 \<le> n \<and> n \<le> 32) \<or> n = 133 \<or> n = 160)"

definition is_word :: "char \<Rightarrow> bool" where
  "is_word c = (let n = (of_char c :: nat) in
     (48 \<le> n \<and> n \<le> 57) \<or> (65 \<le> n \<and> n \<le> 90) \<or> n = 95 \<or> (97 \<le> n \<and> n \<le> 122) \<or>
     n = 170 \<or> n = 178 \<or> n = 179 \<or> n = 181 \<or> n = 185 \<or> n = 186 \<or>
     (188 \<le> n \<and> n \<le> 190) \<or> (192 \<le> n \<and> n \<le> 214) \<or> (216 \<le> n \<and> n \<le> 246) \<or>
     (248 \<le> n \<and> n \<le> 255))"

text \<open>
  \<^verbatim>\<open>re.findall(r"(\w+)=(\S+)", params_str)\<close>, the matches from left to right. At a
  position the pattern matches exactly when the longest run of word characters there
  is not empty and is followed by \<^verbatim>\<open>=\<close> and by a character that is not white space (a
  shorter run is followed by a word character, never by \<^verbatim>\<open>=\<close>); the value is the
  longest run of characters that are not white space; the search resumes after the
  match, or one character further when there is none.
\<close>

function findall_kv :: "string \<Rightarrow> (string \<times> string) list" where
  "findall_kv [] = []"
| "findall_kv (c # cs) =
     (let k = takeWhile is_word (c # cs); r = dropWhile is_word (c # cs) in
      case r of
        [] \<Rightarrow> findall_kv cs
      | e # r' \<Rightarrow>
          if k \<noteq> [] \<and> e = CHR ''='' \<and> takeWhile (\<lambda>x. \<not> is_space x) r' \<noteq> []
          then (k, takeWhile (\<lambda>x. \<not> is_space x) r') # findall_kv (dropWhile (\<lambda>x. \<not> is_space x) r')
          else findall_kv cs)"
  by pat_completeness auto
termination
proof (relation "measure length")
  show "wf (measure length)" by simp
next
  fix c :: char and cs k r
  show "(cs, c # cs) \<in> measure length" by simp
next
  fix c :: char and cs k r e r'
  assume r: "r = dropWhile is_word (c # cs)" "r = e # r'"
  have "length (dropWhile (\<lambda>x. \<not> is_space x) r') \<le> length r'"
    by (rule length_dropWhile_le)
  moreover have "length r \<le> length (c # cs)"
    unfolding r(1) by (rule length_dropWhile_le)
  ultimately show "(dropWhile (\<lambda>x. \<not> is_space x) r', c # cs) \<in> measure length"
    using r(2) by simp
next
  fix c :: char and cs k r e r'
  show "(cs, c # cs) \<in> measure length" by simp
qed

text \<open>The loop \<^verbatim>\<open>for kv in ...: params[kv[0]] = kv[1]\<close>: a later pair replaces an earlier one.\<close>

definition build_params :: "(string \<times> string) list \<Rightarrow> dict" where
  "build_params kvs = foldl (\<lambda>params kv. AList.update (fst kv) (snd kv) params) [] kvs"

text \<open>
  \<^verbatim>\<open>re.match(r"\[activity\]\s+(\S+)\s*(.*)", body)\<close>: the literal tag, at least one white
  space character, the action (the longest run without white space, which must not be
  empty), any white space, and the rest up to the first newline (\<^verbatim>\<open>.\<close> does not match
  it). Every quantifier is greedy and none has to give anything back, so the match is
  the one computed here. No match gives \<^verbatim>\<open>("", {})\<close>.
\<close>

definition parse_activity :: "string \<Rightarrow> string \<times> dict" where
  "parse_activity b =
     (if prefix ''[activity]'' b then
        (let r1 = drop 10 b;
             r2 = dropWhile is_space r1;
             action = takeWhile (\<lambda>x. \<not> is_space x) r2;
             r3 = dropWhile (\<lambda>x. \<not> is_space x) r2;
             r4 = dropWhile is_space r3;
             params_str = takeWhile (\<lambda>x. x \<noteq> CHR 0x0A) r4
         in if takeWhile is_space r1 = [] \<or> action = [] then ([], [])
            else (action, build_params (findall_kv params_str)))
      else ([], []))"

section \<open>\<^verbatim>\<open>build_debug_sessions\<close>\<close>

definition ev_user :: "event \<Rightarrow> string" where
  "ev_user ev = dict_get (resources_string ev) ''user.id'' []"

definition ev_service :: "event \<Rightarrow> string" where
  "ev_service ev = dict_get (resources_string ev) ''service.name'' []"

text \<open>
  \<^verbatim>\<open>user_events = defaultdict(list)\<close> keeps its keys in the order of their first
  insertion; \<^verbatim>\<open>user_events[uid].append(ev)\<close> is \<open>append_user\<close>.
\<close>

fun append_user :: "string \<Rightarrow> event \<Rightarrow> (string \<times> event list) list \<Rightarrow> (string \<times> event list) list" where
  "append_user uid ev [] = [(uid, [ev])]"
| "append_user uid ev ((k, es) # rest) =
     (if k = uid then (k, es @ [ev]) # rest else (k, es) # append_user uid ev rest)"

definition group_by_user :: "event list \<Rightarrow> (string \<times> event list) list" where
  "group_by_user evs =
     foldl (\<lambda>user_events ev. if ev_user ev \<noteq> [] then append_user (ev_user ev) ev user_events
                               else user_events) [] evs"

text \<open>The three tests of the marker loop, in the order of its \<^verbatim>\<open>if\<close>/\<^verbatim>\<open>elif\<close> chain.\<close>

definition is_da_init :: "event \<Rightarrow> bool" where
  "is_da_init ev = (ev_service ev = ''ddb-da'' \<and> prefix ''[OTel] Debugger Adapter initialized'' (body ev))"

definition is_ext_stop :: "event \<Rightarrow> bool" where
  "is_ext_stop ev = (ev_service ev = ''ddb-ext'' \<and> body ev = ''[activity] debug_session_stopped'')"

definition is_api_stop :: "event \<Rightarrow> bool" where
  "is_api_stop ev = (ev_service ev = ''ddb'' \<and> body ev = ''API server stopped'')"

fun collect_markers :: "event list \<Rightarrow> event list \<times> event list" where
  "collect_markers [] = ([], [])"
| "collect_markers (ev # evs) =
     (let (da_inits, stop_events) = collect_markers evs in
      if is_da_init ev then (ev # da_inits, stop_events)
      else if is_ext_stop ev then (da_inits, ev # stop_events)
      else if is_api_stop ev then (da_inits, ev # stop_events)
      else (da_inits, stop_events))"

text \<open>
  The inner \<^verbatim>\<open>while stop_idx < len(stop_events)\<close> loop: it returns the scan position
  where it stopped and \<^verbatim>\<open>next_stop_ts\<close>.
\<close>

function find_next_stop :: "event list \<Rightarrow> int \<Rightarrow> nat \<Rightarrow> nat \<times> ext_ts" where
  "find_next_stop stop_events init_ts stop_idx =
     (if stop_idx < length stop_events then
        (if timestamp (stop_events ! stop_idx) > init_ts
         then (stop_idx, Ts (timestamp (stop_events ! stop_idx)))
         else find_next_stop stop_events init_ts (stop_idx + 1))
      else (stop_idx, PosInf))"
  by pat_completeness auto
termination
  by (relation "measure (\<lambda>(stop_events, init_ts, stop_idx). length stop_events - stop_idx)") auto

declare find_next_stop.simps [simp del]

text \<open>\<^verbatim>\<open>da_inits[i + 1]["timestamp"] if i + 1 < len(da_inits) else float("inf")\<close>, on the
  markers after the current one.\<close>

fun next_init_of :: "event list \<Rightarrow> ext_ts" where
  "next_init_of [] = PosInf"
| "next_init_of (ev # _) = Ts (timestamp ev)"

text \<open>
  \<^verbatim>\<open>int(end_candidate) if end_candidate != float("inf") else evs[-1]["timestamp"]\<close>;
  \<^verbatim>\<open>evs[-1]\<close> raises \<^verbatim>\<open>IndexError\<close> on an empty list.
\<close>

definition session_end_ts :: "event list \<Rightarrow> ext_ts \<Rightarrow> py_error + int" where
  "session_end_ts evs end_candidate =
     (case end_candidate of
        Ts t \<Rightarrow> Inr t
      | PosInf \<Rightarrow> (if evs = [] then Inl IndexError else Inr (timestamp (last evs))))"

text \<open>
  One round of \<^verbatim>\<open>for i, init_ev in enumerate(da_inits)\<close>: the session it appends and the
  scan position \<^verbatim>\<open>stop_idx\<close> it leaves.
\<close>

definition session_step ::
  "event list \<Rightarrow> event list \<Rightarrow> string \<Rightarrow> event \<Rightarrow> ext_ts \<Rightarrow> nat \<Rightarrow> py_error + (DebugSession \<times> nat)" where
  "session_step evs stop_events uid init_ev next_init_ts stop_idx =
     (let init_ts = timestamp init_ev;
          da_sid = dict_get (resources_string init_ev) ''session.id'' [];
          (idx1, next_stop_ts) = find_next_stop stop_events init_ts stop_idx;
          end_candidate = ts_min next_init_ts next_stop_ts;
          idx2 = (if ts_le next_stop_ts next_init_ts \<and> next_stop_ts \<noteq> PosInf then idx1 + 1 else idx1)
      in case session_end_ts evs end_candidate of
           Inl e \<Rightarrow> Inl e
         | Inr e_ts \<Rightarrow>
             Inr ((new_session uid da_sid init_ts e_ts)
                    \<lparr> events := filter (\<lambda>ev. init_ts \<le> timestamp ev \<and> timestamp ev \<le> e_ts) evs \<rparr>,
                  idx2))"

fun pair_sessions ::
  "event list \<Rightarrow> event list \<Rightarrow> string \<Rightarrow> event list \<Rightarrow> nat \<Rightarrow> py_error + (DebugSession \<times> nat) list" where
  "pair_sessions evs stop_events uid [] stop_idx = Inr []"
| "pair_sessions evs stop_events uid (init_ev # rest) stop_idx =
     (case session_step evs stop_events uid init_ev (next_init_of rest) stop_idx of
        Inl e \<Rightarrow> Inl e
      | Inr (s, idx) \<Rightarrow>
          (case pair_sessions evs stop_events uid rest idx of
             Inl e \<Rightarrow> Inl e
           | Inr ps \<Rightarrow> Inr ((s, idx) # ps)))"

text \<open>The body of \<^verbatim>\<open>for uid, evs in user_events.items()\<close>.\<close>

definition user_sessions :: "string \<Rightarrow> event list \<Rightarrow> py_error + (DebugSession \<times> nat) list" where
  "user_sessions uid evs0 =
     (let evs = sort_key timestamp evs0;
          (da_inits, stop_events0) = collect_markers evs;
          stop_events = sort_key timestamp stop_events0
      in pair_sessions evs stop_events uid da_inits 0)"

fun build_users :: "(string \<times> event list) list \<Rightarrow> py_error + DebugSession list" where
  "build_users [] = Inr []"
| "build_users ((uid, evs) # rest) =
     (case user_sessions uid evs of
        Inl e \<Rightarrow> Inl e
      | Inr ps \<Rightarrow>
          (case build_users rest of
             Inl e \<Rightarrow> Inl e
           | Inr ss \<Rightarrow> Inr (map fst ps @ ss)))"

definition build_debug_sessions :: "event list \<Rightarrow> py_error + DebugSession list" where
  "build_debug_sessions evs = build_users (group_by_user evs)"

section \<open>\<^verbatim>\<open>process_session\<close>\<close>

definition is_step_action :: "string \<Rightarrow> bool" where
  "is_step_action action = (action = ''step_over'' \<or> action = ''step_in'' \<or> action = ''step_out'')"

text \<open>Lines 162 to 165: the \<^verbatim>\<open>session=\<close> parameter of any action.\<close>

definition track_debuggee :: "dict \<Rightarrow> DebugSession \<Rightarrow> DebugSession" where
  "track_debuggee params s =
     (let sess_num = dict_get params ''session'' [] in
      if sess_num \<noteq> [] \<and> sess_num \<noteq> ''undefined''
      then s\<lparr> unique_sessions_viewed := insert sess_num (unique_sessions_viewed s) \<rparr>
      else s)"

text \<open>Lines 168 to 172: a step action counts and opens a stepping interval.\<close>

definition on_step :: "string \<Rightarrow> int \<Rightarrow> DebugSession \<Rightarrow> DebugSession" where
  "on_step action ts s =
     (if is_step_action action then
        (let s1 = s\<lparr> step_count := step_count s + 1 \<rparr> in
         if \<not> in_stepping s1 then s1\<lparr> in_stepping := True, last_step_ts := ts \<rparr> else s1)
      else s)"

text \<open>Lines 175 to 185: an adapter stop may close the stepping interval and opens a pause.\<close>

definition on_stop :: "string \<Rightarrow> string \<Rightarrow> dict \<Rightarrow> int \<Rightarrow> DebugSession \<Rightarrow> DebugSession" where
  "on_stop action svc params ts s =
     (if action = ''stop'' \<and> svc = ''ddb-da'' then
        (let reason = dict_get params ''reason'' [];
             s1 = (if (reason = ''end-stepping-range'' \<or> reason = ''function-finished'') \<and> in_stepping s
                   then s\<lparr> step_durations := step_durations s @ [ts - last_step_ts s],
                           in_stepping := False \<rparr>
                   else s)
         in if \<not> is_paused s1 then s1\<lparr> is_paused := True, last_pause_ts := ts \<rparr> else s1)
      else s)"

text \<open>Lines 188 to 192: an adapter continue closes the pause and counts.\<close>

definition on_continue :: "string \<Rightarrow> string \<Rightarrow> int \<Rightarrow> DebugSession \<Rightarrow> DebugSession" where
  "on_continue action svc ts s =
     (if action = ''continue'' \<and> svc = ''ddb-da'' then
        (let s1 = (if is_paused s
                   then s\<lparr> pause_durations := pause_durations s @ [ts - last_pause_ts s],
                           is_paused := False \<rparr>
                   else s)
         in s1\<lparr> continue_count := continue_count s1 + 1 \<rparr>)
      else s)"

text \<open>Lines 194 to 196: a step action resumes from a pause.\<close>

definition on_step_resume :: "string \<Rightarrow> int \<Rightarrow> DebugSession \<Rightarrow> DebugSession" where
  "on_step_resume action ts s =
     (if is_step_action action \<and> is_paused s
      then s\<lparr> pause_durations := pause_durations s @ [ts - last_pause_ts s], is_paused := False \<rparr>
      else s)"

text \<open>Lines 199 to 220: the plain counters.\<close>

definition on_breakpoints :: "string \<Rightarrow> DebugSession \<Rightarrow> DebugSession" where
  "on_breakpoints action s =
     (if action = ''set_breakpoints'' then s\<lparr> breakpoint_ops := breakpoint_ops s + 1 \<rparr> else s)"

definition on_select_frame :: "string \<Rightarrow> dict \<Rightarrow> DebugSession \<Rightarrow> DebugSession" where
  "on_select_frame action params s =
     (if action = ''select_frame'' then
        (let s1 = s\<lparr> frame_switches := frame_switches s + 1 \<rparr>;
             after_boundary = dict_get params ''after_boundary'' ''false''
         in if after_boundary = ''true''
            then s1\<lparr> dbt_frame_switches := dbt_frame_switches s1 + 1 \<rparr> else s1)
      else s)"

definition on_pause :: "string \<Rightarrow> DebugSession \<Rightarrow> DebugSession" where
  "on_pause action s = (if action = ''pause'' then s\<lparr> pause_count := pause_count s + 1 \<rparr> else s)"

definition on_jump :: "string \<Rightarrow> DebugSession \<Rightarrow> DebugSession" where
  "on_jump action s =
     (if action = ''reverse_continue'' \<or> action = ''step_back''
      then s\<lparr> jump_count := jump_count s + 1 \<rparr> else s)"

definition on_examine :: "string \<Rightarrow> DebugSession \<Rightarrow> DebugSession" where
  "on_examine action s =
     (let s1 = (if action = ''expand_variable''
                then s\<lparr> variable_examinations := variable_examinations s + 1 \<rparr> else s)
      in if action = ''evaluate''
         then s1\<lparr> variable_examinations := variable_examinations s1 + 1 \<rparr> else s1)"

text \<open>
  The body of \<^verbatim>\<open>for ev in session.events\<close> for an event that carries an action: the
  blocks of lines 162 to 220, in their order (the innermost is applied first).
\<close>

definition apply_action :: "string \<Rightarrow> dict \<Rightarrow> string \<Rightarrow> int \<Rightarrow> DebugSession \<Rightarrow> DebugSession" where
  "apply_action action params svc ts s =
     on_examine action
       (on_jump action
         (on_pause action
           (on_select_frame action params
             (on_breakpoints action
               (on_step_resume action ts
                 (on_continue action svc ts
                   (on_stop action svc params ts
                     (on_step action ts
                       (track_debuggee params s)))))))))"

text \<open>Lines 154 to 160: an event without an action is skipped (\<^verbatim>\<open>continue\<close>).\<close>

definition handle_event :: "DebugSession \<Rightarrow> event \<Rightarrow> DebugSession" where
  "handle_event s ev =
     (let svc = ev_service ev;
          ts = timestamp ev;
          (action, params) = parse_activity (body ev)
      in if action = [] then s else apply_action action params svc ts s)"

text \<open>
  \<^verbatim>\<open>process_session\<close>: the event list is sorted in place (a stable sort on the
  timestamp), then the events are handled from first to last.
\<close>

definition process_session :: "DebugSession \<Rightarrow> DebugSession" where
  "process_session s =
     (let evs = sort_key timestamp (events s) in foldl handle_event (s\<lparr> events := evs \<rparr>) evs)"

text \<open>
  The session after the first \<open>n\<close> events of the pass; \<open>process_session\<close> is the pass over
  all of them.
\<close>

definition process_prefix :: "DebugSession \<Rightarrow> nat \<Rightarrow> DebugSession" where
  "process_prefix s n =
     (let evs = sort_key timestamp (events s) in foldl handle_event (s\<lparr> events := evs \<rparr>) (take n evs))"

section \<open>The Builder's view of one user\<close>

text \<open>
  The events of one user in a batch, in the order of the batch: the list
  \<^verbatim>\<open>user_events[uid]\<close> of the Builder.
\<close>

definition user_events :: "event list \<Rightarrow> string \<Rightarrow> event list" where
  "user_events batch uid = filter (\<lambda>ev. ev_user ev = uid) batch"

text \<open>
  The lists \<^verbatim>\<open>da_inits\<close> and \<^verbatim>\<open>stop_events\<close> (after its sort) that the Builder computes
  from the events of one user.
\<close>

definition user_inits :: "event list \<Rightarrow> event list" where
  "user_inits evs0 = fst (collect_markers (sort_key timestamp evs0))"

definition user_stops :: "event list \<Rightarrow> event list" where
  "user_stops evs0 = sort_key timestamp (snd (collect_markers (sort_key timestamp evs0)))"

text \<open>
  The scan position \<^verbatim>\<open>stop_idx\<close> at the start of round \<open>i\<close> of the loop over the
  initialisation markers, read off the positions the rounds have left: the entry
  position for the first round, then the position the round before has left.
\<close>

definition scan_start :: "nat \<Rightarrow> (DebugSession \<times> nat) list \<Rightarrow> nat \<Rightarrow> nat" where
  "scan_start idx0 ps i = (if i = 0 then idx0 else snd (ps ! (i - 1)))"

section \<open>Concrete event batches\<close>

text \<open>An event of user \<^verbatim>\<open>u1\<close> in adapter session \<^verbatim>\<open>s1\<close>, as the loader hands it over.\<close>

definition mk_event :: "int \<Rightarrow> string \<Rightarrow> string \<Rightarrow> event" where
  "mk_event ts svc b =
     \<lparr> timestamp = ts, body = b,
       resources_string = [(''user.id'', ''u1''), (''service.name'', svc), (''session.id'', ''s1'')] \<rparr>"

definition init_at :: "int \<Rightarrow> event" where
  "init_at ts = mk_event ts ''ddb-da'' ''[OTel] Debugger Adapter initialized''"

definition ext_stop_at :: "int \<Rightarrow> event" where
  "ext_stop_at ts = mk_event ts ''ddb-ext'' ''[activity] debug_session_stopped''"

definition session_of :: "event list \<Rightarrow> DebugSession" where
  "session_of evs = (new_session ''u1'' ''s1'' 0 100)\<lparr> events := evs \<rparr>"

text \<open>Scenario A of the specification.\<close>

definition scenario_A :: "event list" where
  "scenario_A =
     [init_at 0,
      mk_event 10 ''ddb-da'' ''[activity] step_over'',
      mk_event 50 ''ddb-da'' ''[activity] stop reason=end-stepping-range'',
      mk_event 60 ''ddb-da'' ''[activity] continue'']"

text \<open>A step and then an adapter stop at a breakpoint.\<close>

definition step_then_breakpoint :: "event list" where
  "step_then_breakpoint =
     [mk_event 10 ''ddb-da'' ''[activity] step_over'',
      mk_event 20 ''ddb-da'' ''[activity] stop reason=breakpoint-hit'']"

text \<open>A single step.\<close>

definition one_step :: "event list" where
  "one_step = [mk_event 10 ''ddb-da'' ''[activity] step_over'']"

text \<open>A step and the stop that ends it, at the same timestamp, in both orders.\<close>

definition step_stop_tie :: "event list" where
  "step_stop_tie =
     [mk_event 10 ''ddb-da'' ''[activity] step_over'',
      mk_event 10 ''ddb-da'' ''[activity] stop reason=end-stepping-range'']"

definition stop_step_tie :: "event list" where
  "stop_step_tie =
     [mk_event 10 ''ddb-da'' ''[activity] stop reason=end-stepping-range'',
      mk_event 10 ''ddb-da'' ''[activity] step_over'']"


text \<open>Scenario E: an \<^verbatim>\<open>evaluate\<close> whose \<^verbatim>\<open>session\<close> parameter is \<^verbatim>\<open>undefined\<close>.\<close>

definition evaluate_undefined :: event where
  "evaluate_undefined = mk_event 30 ''ddb-da'' ''[activity] evaluate session=undefined expr=x''"


text \<open>
  Two users. User \<^verbatim>\<open>u1\<close> has a stop marker before the only initialisation and a step
  after it; user \<^verbatim>\<open>u2\<close> has one later event.
\<close>

definition other_user_event :: event where
  "other_user_event =
     \<lparr> timestamp = 100, body = ''[activity] step_over'',
       resources_string = [(''user.id'', ''u2''), (''service.name'', ''ddb-da'')] \<rparr>"

definition stale_stop_batch :: "event list" where
  "stale_stop_batch =
     [ext_stop_at 10, other_user_event, init_at 20,
      mk_event 30 ''ddb-da'' ''[activity] step_over'']"

text \<open>Two initialisations, and a step at the timestamp of the second one.\<close>

definition boundary_batch :: "event list" where
  "boundary_batch =
     [init_at 0, init_at 10, mk_event 10 ''ddb-da'' ''[activity] step_over'']"

section \<open>The blocks of the interpreter, field by field\<close>

text \<open>Each block of the loop body leaves every field it does not assign as it was.\<close>

lemma track_debuggee_frame [simp]:
  "user_id (track_debuggee params s) = user_id s"
  "da_session_id (track_debuggee params s) = da_session_id s"
  "ext_session_id (track_debuggee params s) = ext_session_id s"
  "start_ts (track_debuggee params s) = start_ts s"
  "end_ts (track_debuggee params s) = end_ts s"
  "events (track_debuggee params s) = events s"
  "step_count (track_debuggee params s) = step_count s"
  "breakpoint_ops (track_debuggee params s) = breakpoint_ops s"
  "frame_switches (track_debuggee params s) = frame_switches s"
  "dbt_frame_switches (track_debuggee params s) = dbt_frame_switches s"
  "pause_count (track_debuggee params s) = pause_count s"
  "continue_count (track_debuggee params s) = continue_count s"
  "jump_count (track_debuggee params s) = jump_count s"
  "signal_count (track_debuggee params s) = signal_count s"
  "variable_examinations (track_debuggee params s) = variable_examinations s"
  "step_start_times (track_debuggee params s) = step_start_times s"
  "step_durations (track_debuggee params s) = step_durations s"
  "pause_start_times (track_debuggee params s) = pause_start_times s"
  "pause_durations (track_debuggee params s) = pause_durations s"
  "in_stepping (track_debuggee params s) = in_stepping s"
  "last_step_ts (track_debuggee params s) = last_step_ts s"
  "is_paused (track_debuggee params s) = is_paused s"
  "last_pause_ts (track_debuggee params s) = last_pause_ts s"
  by (simp_all add: track_debuggee_def Let_def)

lemma on_step_frame [simp]:
  "user_id (on_step action ts s) = user_id s"
  "da_session_id (on_step action ts s) = da_session_id s"
  "ext_session_id (on_step action ts s) = ext_session_id s"
  "start_ts (on_step action ts s) = start_ts s"
  "end_ts (on_step action ts s) = end_ts s"
  "events (on_step action ts s) = events s"
  "breakpoint_ops (on_step action ts s) = breakpoint_ops s"
  "frame_switches (on_step action ts s) = frame_switches s"
  "dbt_frame_switches (on_step action ts s) = dbt_frame_switches s"
  "pause_count (on_step action ts s) = pause_count s"
  "continue_count (on_step action ts s) = continue_count s"
  "jump_count (on_step action ts s) = jump_count s"
  "signal_count (on_step action ts s) = signal_count s"
  "variable_examinations (on_step action ts s) = variable_examinations s"
  "unique_sessions_viewed (on_step action ts s) = unique_sessions_viewed s"
  "step_start_times (on_step action ts s) = step_start_times s"
  "step_durations (on_step action ts s) = step_durations s"
  "pause_start_times (on_step action ts s) = pause_start_times s"
  "pause_durations (on_step action ts s) = pause_durations s"
  "is_paused (on_step action ts s) = is_paused s"
  "last_pause_ts (on_step action ts s) = last_pause_ts s"
  by (simp_all add: on_step_def Let_def)

lemma on_stop_frame [simp]:
  "user_id (on_stop action svc params ts s) = user_id s"
  "da_session_id (on_stop action svc params ts s) = da_session_id s"
  "ext_session_id (on_stop action svc params ts s) = ext_session_id s"
  "start_ts (on_stop action svc params ts s) = start_ts s"
  "end_ts (on_stop action svc params ts s) = end_ts s"
  "events (on_stop action svc params ts s) = events s"
  "step_count (on_stop action svc params ts s) = step_count s"
  "breakpoint_ops (on_stop action svc params ts s) = breakpoint_ops s"
  "frame_switches (on_stop action svc params ts s) = frame_switches s"
  "dbt_frame_switches (on_stop action svc params ts s) = dbt_frame_switches s"
  "pause_count (on_stop action svc params ts s) = pause_count s"
  "continue_count (on_stop action svc params ts s) = continue_count s"
  "jump_count (on_stop action svc params ts s) = jump_count s"
  "signal_count (on_stop action svc params ts s) = signal_count s"
  "variable_examinations (on_stop action svc params ts s) = variable_examinations s"
  "unique_sessions_viewed (on_stop action svc params ts s) = unique_sessions_viewed s"
  "step_start_times (on_stop action svc params ts s) = step_start_times s"
  "pause_start_times (on_stop action svc params ts s) = pause_start_times s"
  "pause_durations (on_stop action svc params ts s) = pause_durations s"
  "last_step_ts (on_stop action svc params ts s) = last_step_ts s"
  by (simp_all add: on_stop_def Let_def)

lemma on_continue_frame [simp]:
  "user_id (on_continue action svc ts s) = user_id s"
  "da_session_id (on_continue action svc ts s) = da_session_id s"
  "ext_session_id (on_continue action svc ts s) = ext_session_id s"
  "start_ts (on_continue action svc ts s) = start_ts s"
  "end_ts (on_continue action svc ts s) = end_ts s"
  "events (on_continue action svc ts s) = events s"
  "step_count (on_continue action svc ts s) = step_count s"
  "breakpoint_ops (on_continue action svc ts s) = breakpoint_ops s"
  "frame_switches (on_continue action svc ts s) = frame_switches s"
  "dbt_frame_switches (on_continue action svc ts s) = dbt_frame_switches s"
  "pause_count (on_continue action svc ts s) = pause_count s"
  "jump_count (on_continue action svc ts s) = jump_count s"
  "signal_count (on_continue action svc ts s) = signal_count s"
  "variable_examinations (on_continue action svc ts s) = variable_examinations s"
  "unique_sessions_viewed (on_continue action svc ts s) = unique_sessions_viewed s"
  "step_start_times (on_continue action svc ts s) = step_start_times s"
  "step_durations (on_continue action svc ts s) = step_durations s"
  "pause_start_times (on_continue action svc ts s) = pause_start_times s"
  "in_stepping (on_continue action svc ts s) = in_stepping s"
  "last_step_ts (on_continue action svc ts s) = last_step_ts s"
  "last_pause_ts (on_continue action svc ts s) = last_pause_ts s"
  by (simp_all add: on_continue_def Let_def)

lemma on_step_resume_frame [simp]:
  "user_id (on_step_resume action ts s) = user_id s"
  "da_session_id (on_step_resume action ts s) = da_session_id s"
  "ext_session_id (on_step_resume action ts s) = ext_session_id s"
  "start_ts (on_step_resume action ts s) = start_ts s"
  "end_ts (on_step_resume action ts s) = end_ts s"
  "events (on_step_resume action ts s) = events s"
  "step_count (on_step_resume action ts s) = step_count s"
  "breakpoint_ops (on_step_resume action ts s) = breakpoint_ops s"
  "frame_switches (on_step_resume action ts s) = frame_switches s"
  "dbt_frame_switches (on_step_resume action ts s) = dbt_frame_switches s"
  "pause_count (on_step_resume action ts s) = pause_count s"
  "continue_count (on_step_resume action ts s) = continue_count s"
  "jump_count (on_step_resume action ts s) = jump_count s"
  "signal_count (on_step_resume action ts s) = signal_count s"
  "variable_examinations (on_step_resume action ts s) = variable_examinations s"
  "unique_sessions_viewed (on_step_resume action ts s) = unique_sessions_viewed s"
  "step_start_times (on_step_resume action ts s) = step_start_times s"
  "step_durations (on_step_resume action ts s) = step_durations s"
  "pause_start_times (on_step_resume action ts s) = pause_start_times s"
  "in_stepping (on_step_resume action ts s) = in_stepping s"
  "last_step_ts (on_step_resume action ts s) = last_step_ts s"
  "last_pause_ts (on_step_resume action ts s) = last_pause_ts s"
  by (simp_all add: on_step_resume_def Let_def)

lemma on_breakpoints_frame [simp]:
  "user_id (on_breakpoints action s) = user_id s"
  "da_session_id (on_breakpoints action s) = da_session_id s"
  "ext_session_id (on_breakpoints action s) = ext_session_id s"
  "start_ts (on_breakpoints action s) = start_ts s"
  "end_ts (on_breakpoints action s) = end_ts s"
  "events (on_breakpoints action s) = events s"
  "step_count (on_breakpoints action s) = step_count s"
  "frame_switches (on_breakpoints action s) = frame_switches s"
  "dbt_frame_switches (on_breakpoints action s) = dbt_frame_switches s"
  "pause_count (on_breakpoints action s) = pause_count s"
  "continue_count (on_breakpoints action s) = continue_count s"
  "jump_count (on_breakpoints action s) = jump_count s"
  "signal_count (on_breakpoints action s) = signal_count s"
  "variable_examinations (on_breakpoints action s) = variable_examinations s"
  "unique_sessions_viewed (on_breakpoints action s) = unique_sessions_viewed s"
  "step_start_times (on_breakpoints action s) = step_start_times s"
  "step_durations (on_breakpoints action s) = step_durations s"
  "pause_start_times (on_breakpoints action s) = pause_start_times s"
  "pause_durations (on_breakpoints action s) = pause_durations s"
  "in_stepping (on_breakpoints action s) = in_stepping s"
  "last_step_ts (on_breakpoints action s) = last_step_ts s"
  "is_paused (on_breakpoints action s) = is_paused s"
  "last_pause_ts (on_breakpoints action s) = last_pause_ts s"
  by (simp_all add: on_breakpoints_def Let_def)

lemma on_select_frame_frame [simp]:
  "user_id (on_select_frame action params s) = user_id s"
  "da_session_id (on_select_frame action params s) = da_session_id s"
  "ext_session_id (on_select_frame action params s) = ext_session_id s"
  "start_ts (on_select_frame action params s) = start_ts s"
  "end_ts (on_select_frame action params s) = end_ts s"
  "events (on_select_frame action params s) = events s"
  "step_count (on_select_frame action params s) = step_count s"
  "breakpoint_ops (on_select_frame action params s) = breakpoint_ops s"
  "pause_count (on_select_frame action params s) = pause_count s"
  "continue_count (on_select_frame action params s) = continue_count s"
  "jump_count (on_select_frame action params s) = jump_count s"
  "signal_count (on_select_frame action params s) = signal_count s"
  "variable_examinations (on_select_frame action params s) = variable_examinations s"
  "unique_sessions_viewed (on_select_frame action params s) = unique_sessions_viewed s"
  "step_start_times (on_select_frame action params s) = step_start_times s"
  "step_durations (on_select_frame action params s) = step_durations s"
  "pause_start_times (on_select_frame action params s) = pause_start_times s"
  "pause_durations (on_select_frame action params s) = pause_durations s"
  "in_stepping (on_select_frame action params s) = in_stepping s"
  "last_step_ts (on_select_frame action params s) = last_step_ts s"
  "is_paused (on_select_frame action params s) = is_paused s"
  "last_pause_ts (on_select_frame action params s) = last_pause_ts s"
  by (simp_all add: on_select_frame_def Let_def)

lemma on_pause_frame [simp]:
  "user_id (on_pause action s) = user_id s"
  "da_session_id (on_pause action s) = da_session_id s"
  "ext_session_id (on_pause action s) = ext_session_id s"
  "start_ts (on_pause action s) = start_ts s"
  "end_ts (on_pause action s) = end_ts s"
  "events (on_pause action s) = events s"
  "step_count (on_pause action s) = step_count s"
  "breakpoint_ops (on_pause action s) = breakpoint_ops s"
  "frame_switches (on_pause action s) = frame_switches s"
  "dbt_frame_switches (on_pause action s) = dbt_frame_switches s"
  "continue_count (on_pause action s) = continue_count s"
  "jump_count (on_pause action s) = jump_count s"
  "signal_count (on_pause action s) = signal_count s"
  "variable_examinations (on_pause action s) = variable_examinations s"
  "unique_sessions_viewed (on_pause action s) = unique_sessions_viewed s"
  "step_start_times (on_pause action s) = step_start_times s"
  "step_durations (on_pause action s) = step_durations s"
  "pause_start_times (on_pause action s) = pause_start_times s"
  "pause_durations (on_pause action s) = pause_durations s"
  "in_stepping (on_pause action s) = in_stepping s"
  "last_step_ts (on_pause action s) = last_step_ts s"
  "is_paused (on_pause action s) = is_paused s"
  "last_pause_ts (on_pause action s) = last_pause_ts s"
  by (simp_all add: on_pause_def Let_def)

lemma on_jump_frame [simp]:
  "user_id (on_jump action s) = user_id s"
  "da_session_id (on_jump action s) = da_session_id s"
  "ext_session_id (on_jump action s) = ext_session_id s"
  "start_ts (on_jump action s) = start_ts s"
  "end_ts (on_jump action s) = end_ts s"
  "events (on_jump action s) = events s"
  "step_count (on_jump action s) = step_count s"
  "breakpoint_ops (on_jump action s) = breakpoint_ops s"
  "frame_switches (on_jump action s) = frame_switches s"
  "dbt_frame_switches (on_jump action s) = dbt_frame_switches s"
  "pause_count (on_jump action s) = pause_count s"
  "continue_count (on_jump action s) = continue_count s"
  "signal_count (on_jump action s) = signal_count s"
  "variable_examinations (on_jump action s) = variable_examinations s"
  "unique_sessions_viewed (on_jump action s) = unique_sessions_viewed s"
  "step_start_times (on_jump action s) = step_start_times s"
  "step_durations (on_jump action s) = step_durations s"
  "pause_start_times (on_jump action s) = pause_start_times s"
  "pause_durations (on_jump action s) = pause_durations s"
  "in_stepping (on_jump action s) = in_stepping s"
  "last_step_ts (on_jump action s) = last_step_ts s"
  "is_paused (on_jump action s) = is_paused s"
  "last_pause_ts (on_jump action s) = last_pause_ts s"
  by (simp_all add: on_jump_def Let_def)

lemma on_examine_frame [simp]:
  "user_id (on_examine action s) = user_id s"
  "da_session_id (on_examine action s) = da_session_id s"
  "ext_session_id (on_examine action s) = ext_session_id s"
  "start_ts (on_examine action s) = start_ts s"
  "end_ts (on_examine action s) = end_ts s"
  "events (on_examine action s) = events s"
  "step_count (on_examine action s) = step_count s"
  "breakpoint_ops (on_examine action s) = breakpoint_ops s"
  "frame_switches (on_examine action s) = frame_switches s"
  "dbt_frame_switches (on_examine action s) = dbt_frame_switches s"
  "pause_count (on_examine action s) = pause_count s"
  "continue_count (on_examine action s) = continue_count s"
  "jump_count (on_examine action s) = jump_count s"
  "signal_count (on_examine action s) = signal_count s"
  "unique_sessions_viewed (on_examine action s) = unique_sessions_viewed s"
  "step_start_times (on_examine action s) = step_start_times s"
  "step_durations (on_examine action s) = step_durations s"
  "pause_start_times (on_examine action s) = pause_start_times s"
  "pause_durations (on_examine action s) = pause_durations s"
  "in_stepping (on_examine action s) = in_stepping s"
  "last_step_ts (on_examine action s) = last_step_ts s"
  "is_paused (on_examine action s) = is_paused s"
  "last_pause_ts (on_examine action s) = last_pause_ts s"
  by (simp_all add: on_examine_def Let_def)

text \<open>What each block does to the fields it assigns.\<close>

lemma track_debuggee_viewed:
  "unique_sessions_viewed (track_debuggee params s) =
     unique_sessions_viewed s \<union>
       (if dict_get params ''session'' [] \<noteq> [] \<and> dict_get params ''session'' [] \<noteq> ''undefined''
        then {dict_get params ''session'' []} else {})"
  by (simp add: track_debuggee_def Let_def)

lemma on_step_count:
  "step_count (on_step action ts s) = step_count s + (if is_step_action action then 1 else 0)"
  by (simp add: on_step_def Let_def)

lemma on_step_in_stepping:
  "in_stepping (on_step action ts s) = (in_stepping s \<or> is_step_action action)"
  by (simp add: on_step_def Let_def)

lemma on_stop_in_stepping:
  "in_stepping (on_stop action svc params ts s) =
     (in_stepping s \<and> \<not> (action = ''stop'' \<and> svc = ''ddb-da'' \<and>
        (dict_get params ''reason'' [] = ''end-stepping-range'' \<or>
         dict_get params ''reason'' [] = ''function-finished'')))"
  by (auto simp: on_stop_def Let_def)

lemma on_stop_is_paused:
  "is_paused (on_stop action svc params ts s) =
     (is_paused s \<or> (action = ''stop'' \<and> svc = ''ddb-da''))"
  by (simp add: on_stop_def Let_def)

lemma on_continue_is_paused:
  "is_paused (on_continue action svc ts s) =
     (is_paused s \<and> \<not> (action = ''continue'' \<and> svc = ''ddb-da''))"
  by (simp add: on_continue_def Let_def)

lemma on_continue_count:
  "continue_count (on_continue action svc ts s) =
     continue_count s + (if action = ''continue'' \<and> svc = ''ddb-da'' then 1 else 0)"
  by (simp add: on_continue_def Let_def)

lemma on_step_resume_is_paused:
  "is_paused (on_step_resume action ts s) = (is_paused s \<and> \<not> is_step_action action)"
  by (auto simp: on_step_resume_def)

lemma on_breakpoints_count:
  "breakpoint_ops (on_breakpoints action s) =
     breakpoint_ops s + (if action = ''set_breakpoints'' then 1 else 0)"
  by (simp add: on_breakpoints_def)

lemma on_select_frame_count:
  "frame_switches (on_select_frame action params s) =
     frame_switches s + (if action = ''select_frame'' then 1 else 0)"
  "dbt_frame_switches (on_select_frame action params s) =
     dbt_frame_switches s +
       (if action = ''select_frame'' \<and> dict_get params ''after_boundary'' ''false'' = ''true''
        then 1 else 0)"
  by (simp_all add: on_select_frame_def Let_def)

lemma on_pause_count:
  "pause_count (on_pause action s) = pause_count s + (if action = ''pause'' then 1 else 0)"
  by (simp add: on_pause_def)

lemma on_jump_count:
  "jump_count (on_jump action s) =
     jump_count s + (if action = ''reverse_continue'' \<or> action = ''step_back'' then 1 else 0)"
  by (simp add: on_jump_def)

lemma on_examine_count:
  "variable_examinations (on_examine action s) =
     variable_examinations s + (if action = ''expand_variable'' then 1 else 0)
                             + (if action = ''evaluate'' then 1 else 0)"
  by (simp add: on_examine_def Let_def)

lemmas block_effects =
  track_debuggee_viewed on_step_count on_step_in_stepping on_stop_in_stepping on_stop_is_paused
  on_continue_is_paused on_continue_count on_step_resume_is_paused on_breakpoints_count
  on_select_frame_count on_pause_count on_jump_count on_examine_count

text \<open>The same for the whole body of the loop.\<close>

lemma handle_event_skip:
  "fst (parse_activity (body ev)) = [] \<Longrightarrow> handle_event s ev = s"
  by (cases "parse_activity (body ev)") (simp add: handle_event_def)

lemma handle_event_action:
  "parse_activity (body ev) = (action, params) \<Longrightarrow> action \<noteq> [] \<Longrightarrow>
   handle_event s ev = apply_action action params (ev_service ev) (timestamp ev) s"
  by (simp add: handle_event_def Let_def)

lemma apply_action_frame [simp]:
  "user_id (apply_action action params svc ts s) = user_id s"
  "da_session_id (apply_action action params svc ts s) = da_session_id s"
  "ext_session_id (apply_action action params svc ts s) = ext_session_id s"
  "start_ts (apply_action action params svc ts s) = start_ts s"
  "end_ts (apply_action action params svc ts s) = end_ts s"
  "events (apply_action action params svc ts s) = events s"
  "signal_count (apply_action action params svc ts s) = signal_count s"
  "step_start_times (apply_action action params svc ts s) = step_start_times s"
  "pause_start_times (apply_action action params svc ts s) = pause_start_times s"
  by (simp_all add: apply_action_def)

lemma handle_event_frame [simp]:
  "user_id (handle_event s ev) = user_id s"
  "da_session_id (handle_event s ev) = da_session_id s"
  "ext_session_id (handle_event s ev) = ext_session_id s"
  "start_ts (handle_event s ev) = start_ts s"
  "end_ts (handle_event s ev) = end_ts s"
  "events (handle_event s ev) = events s"
  "signal_count (handle_event s ev) = signal_count s"
  "step_start_times (handle_event s ev) = step_start_times s"
  "pause_start_times (handle_event s ev) = pause_start_times s"
  by (simp_all add: handle_event_def Let_def split: prod.splits)

lemma foldl_handle_event_frame [simp]:
  "user_id (foldl handle_event s evs) = user_id s"
  "da_session_id (foldl handle_event s evs) = da_session_id s"
  "ext_session_id (foldl handle_event s evs) = ext_session_id s"
  "start_ts (foldl handle_event s evs) = start_ts s"
  "end_ts (foldl handle_event s evs) = end_ts s"
  "events (foldl handle_event s evs) = events s"
  "signal_count (foldl handle_event s evs) = signal_count s"
  "step_start_times (foldl handle_event s evs) = step_start_times s"
  "pause_start_times (foldl handle_event s evs) = pause_start_times s"
  by (induction evs arbitrary: s; simp)+

text \<open>The counters: an event adds an amount that does not depend on the session.\<close>

lemma apply_action_counters:
  "step_count (apply_action action params svc ts s) =
     step_count s + (if is_step_action action then 1 else 0)"
  "breakpoint_ops (apply_action action params svc ts s) =
     breakpoint_ops s + (if action = ''set_breakpoints'' then 1 else 0)"
  "frame_switches (apply_action action params svc ts s) =
     frame_switches s + (if action = ''select_frame'' then 1 else 0)"
  "dbt_frame_switches (apply_action action params svc ts s) =
     dbt_frame_switches s +
       (if action = ''select_frame'' \<and> dict_get params ''after_boundary'' ''false'' = ''true''
        then 1 else 0)"
  "pause_count (apply_action action params svc ts s) =
     pause_count s + (if action = ''pause'' then 1 else 0)"
  "continue_count (apply_action action params svc ts s) =
     continue_count s + (if action = ''continue'' \<and> svc = ''ddb-da'' then 1 else 0)"
  "jump_count (apply_action action params svc ts s) =
     jump_count s + (if action = ''reverse_continue'' \<or> action = ''step_back'' then 1 else 0)"
  "variable_examinations (apply_action action params svc ts s) =
     variable_examinations s + (if action = ''expand_variable'' then 1 else 0)
                             + (if action = ''evaluate'' then 1 else 0)"
  "unique_sessions_viewed (apply_action action params svc ts s) =
     unique_sessions_viewed s \<union>
       (if dict_get params ''session'' [] \<noteq> [] \<and> dict_get params ''session'' [] \<noteq> ''undefined''
        then {dict_get params ''session'' []} else {})"
  unfolding apply_action_def by (simp_all only: block_effects
      track_debuggee_frame on_step_frame on_stop_frame on_continue_frame on_step_resume_frame
      on_breakpoints_frame on_select_frame_frame on_pause_frame on_jump_frame on_examine_frame)

lemma apply_action_flags:
  "in_stepping (apply_action action params svc ts s) =
     ((in_stepping s \<or> is_step_action action) \<and>
      \<not> (action = ''stop'' \<and> svc = ''ddb-da'' \<and>
        (dict_get params ''reason'' [] = ''end-stepping-range'' \<or>
         dict_get params ''reason'' [] = ''function-finished'')))"
  "is_paused (apply_action action params svc ts s) =
     (((is_paused s \<or> (action = ''stop'' \<and> svc = ''ddb-da'')) \<and>
       \<not> (action = ''continue'' \<and> svc = ''ddb-da'')) \<and> \<not> is_step_action action)"
  unfolding apply_action_def by (simp_all only: block_effects
      track_debuggee_frame on_step_frame on_stop_frame on_continue_frame on_step_resume_frame
      on_breakpoints_frame on_select_frame_frame on_pause_frame on_jump_frame on_examine_frame)

lemma handle_event_counter_indep:
  "step_count (handle_event s ev) - step_count s = step_count (handle_event s' ev) - step_count s'"
  "breakpoint_ops (handle_event s ev) - breakpoint_ops s =
     breakpoint_ops (handle_event s' ev) - breakpoint_ops s'"
  "frame_switches (handle_event s ev) - frame_switches s =
     frame_switches (handle_event s' ev) - frame_switches s'"
  "dbt_frame_switches (handle_event s ev) - dbt_frame_switches s =
     dbt_frame_switches (handle_event s' ev) - dbt_frame_switches s'"
  "pause_count (handle_event s ev) - pause_count s = pause_count (handle_event s' ev) - pause_count s'"
  "continue_count (handle_event s ev) - continue_count s =
     continue_count (handle_event s' ev) - continue_count s'"
  "jump_count (handle_event s ev) - jump_count s = jump_count (handle_event s' ev) - jump_count s'"
  "variable_examinations (handle_event s ev) - variable_examinations s =
     variable_examinations (handle_event s' ev) - variable_examinations s'"
  by (simp_all add: handle_event_def Let_def apply_action_counters split: prod.splits)

lemma foldl_counter:
  fixes c :: "DebugSession \<Rightarrow> int"
  assumes "\<And>s s' ev. c (handle_event s ev) - c s = c (handle_event s' ev) - c s'"
  shows "c (foldl handle_event s evs) =
           c s + sum_list (map (\<lambda>ev. c (handle_event s0 ev) - c s0) evs)"
proof (induction evs arbitrary: s)
  case Nil
  show ?case by simp
next
  case (Cons ev evs)
  have "c (handle_event s ev) = c s + (c (handle_event s0 ev) - c s0)"
    using assms [of s ev s0] by simp
  with Cons.IH [of "handle_event s ev"] show ?case by simp
qed

lemma foldl_counter_perm:
  fixes c :: "DebugSession \<Rightarrow> int"
  assumes indep: "\<And>s s' ev. c (handle_event s ev) - c s = c (handle_event s' ev) - c s'"
    and perm: "mset evs = mset evs'" and start: "c s = c s'"
  shows "c (foldl handle_event s evs) = c (foldl handle_event s' evs')"
proof -
  let ?f = "\<lambda>ev. c (handle_event s ev) - c s"
  have "mset (map ?f evs) = mset (map ?f evs')"
    using perm by simp
  then have "sum_list (map ?f evs) = sum_list (map ?f evs')"
    by (metis sum_mset_sum_list)
  then show ?thesis
    using foldl_counter [of c s evs s, OF indep] foldl_counter [of c s' evs' s, OF indep] start
    by simp
qed

lemma handle_event_viewed:
  "unique_sessions_viewed (handle_event s ev) =
     unique_sessions_viewed s \<union> unique_sessions_viewed (handle_event (new_session [] [] 0 0) ev)"
  by (simp add: handle_event_def Let_def apply_action_counters new_session_def split: prod.splits)

lemma foldl_viewed:
  "unique_sessions_viewed (foldl handle_event s evs) =
     unique_sessions_viewed s \<union>
       (\<Union>ev \<in> set evs. unique_sessions_viewed (handle_event (new_session [] [] 0 0) ev))"
proof (induction evs arbitrary: s)
  case Nil
  show ?case by simp
next
  case (Cons ev evs)
  show ?case
    using Cons.IH [of "handle_event s ev"] handle_event_viewed [of s ev] by auto
qed

section \<open>The Session Interpreter\<close>

lemma process_session_prefix: "process_session s = process_prefix s (length (events s))"
  by (simp add: process_session_def process_prefix_def Let_def)

text \<open>
  Claim C10. The Interpreter leaves \<open>user_id\<close>, \<open>da_session_id\<close>, \<open>start_ts\<close> and \<open>end_ts\<close> of
  every session as they were and keeps the multiset of attached events: the event list
  becomes its timestamp-sorted rearrangement, nothing is added or removed. The fields
  \<open>ext_session_id\<close>, \<open>signal_count\<close>, \<open>step_start_times\<close> and \<open>pause_start_times\<close> are not
  written either, so only the counters, the duration lists, the open-interval state and
  \<open>unique_sessions_viewed\<close> can change.
\<close>

theorem interpreter_frame:
  "user_id (process_session s) = user_id s \<and>
   da_session_id (process_session s) = da_session_id s \<and>
   start_ts (process_session s) = start_ts s \<and>
   end_ts (process_session s) = end_ts s \<and>
   mset (events (process_session s)) = mset (events s) \<and>
   events (process_session s) = sort_key timestamp (events s) \<and>
   ext_session_id (process_session s) = ext_session_id s \<and>
   signal_count (process_session s) = signal_count s \<and>
   step_start_times (process_session s) = step_start_times s \<and>
   pause_start_times (process_session s) = pause_start_times s"
  by (simp add: process_session_def Let_def)

theorem interpreter_frame_witness:
  "user_id (process_session (session_of scenario_A)) = ''u1'' \<and>
   start_ts (process_session (session_of scenario_A)) = 0 \<and>
   end_ts (process_session (session_of scenario_A)) = 100 \<and>
   mset (events (process_session (session_of scenario_A))) = mset scenario_A"
  using interpreter_frame [of "session_of scenario_A"]
  by (simp add: session_of_def new_session_def)

text \<open>
  Claim C6 (Scenario A). For the batch \<open>init@0\<close>, \<open>step_over@10\<close>, adapter
  \<open>stop reason=end-stepping-range@50\<close>, adapter \<open>continue@60\<close> of one user, the Builder
  makes one session, and the Interpreter gives it \<open>step_count = 1\<close>, the single stepping
  duration \<open>40\<close> and the single pause duration \<open>10\<close>.
\<close>

theorem scenario_A_metrics:
  "map_sum id (map (\<lambda>s. (step_count (process_session s), step_durations (process_session s),
                          pause_durations (process_session s))))
     (build_debug_sessions scenario_A) = Inr [(1, [40], [10])]"
  by code_simp


lemma handle_event_undefined:
  "''undefined'' \<in> unique_sessions_viewed (handle_event s ev) \<Longrightarrow>
   ''undefined'' \<in> unique_sessions_viewed s"
  by (cases "parse_activity (body ev)")
     (auto simp: handle_event_def apply_action_counters split: if_splits)

lemma foldl_undefined:
  "''undefined'' \<in> unique_sessions_viewed (foldl handle_event s evs) \<Longrightarrow>
   ''undefined'' \<in> unique_sessions_viewed s"
  by (induction evs arbitrary: s) (auto dest: handle_event_undefined)

text \<open>
  Claim C8 (Scenario E). An \<^verbatim>\<open>evaluate\<close> event whose \<^verbatim>\<open>session\<close> parameter is the literal
  \<^verbatim>\<open>undefined\<close> adds one to \<open>variable_examinations\<close> and leaves \<open>unique_sessions_viewed\<close> as
  it was; and no event, and no whole pass, ever inserts \<^verbatim>\<open>undefined\<close>: if it is in the set
  afterwards, it was there before.
\<close>

theorem evaluate_undefined_effect:
  assumes "parse_activity (body ev) = (''evaluate'', params)"
    and "dict_get params ''session'' [] = ''undefined''"
  shows "variable_examinations (handle_event s ev) = variable_examinations s + 1 \<and>
         unique_sessions_viewed (handle_event s ev) = unique_sessions_viewed s \<and>
         (''undefined'' \<in> unique_sessions_viewed (handle_event s' ev') \<longrightarrow>
            ''undefined'' \<in> unique_sessions_viewed s') \<and>
         (''undefined'' \<in> unique_sessions_viewed (process_session s') \<longrightarrow>
            ''undefined'' \<in> unique_sessions_viewed s')"
proof -
  have "handle_event s ev = apply_action ''evaluate'' params (ev_service ev) (timestamp ev) s"
    using assms(1) by (simp add: handle_event_action)
  then have "variable_examinations (handle_event s ev) = variable_examinations s + 1"
    and "unique_sessions_viewed (handle_event s ev) = unique_sessions_viewed s"
    using assms(2) by (simp_all add: apply_action_counters)
  moreover have "''undefined'' \<in> unique_sessions_viewed (process_session s') \<longrightarrow>
            ''undefined'' \<in> unique_sessions_viewed s'"
    using foldl_undefined [of "s'\<lparr>events := sort_key timestamp (events s')\<rparr>"]
    by (auto simp: process_session_def Let_def)
  ultimately show ?thesis
    using handle_event_undefined [of s' ev'] by blast
qed

theorem evaluate_undefined_effect_witness:
  "parse_activity (body evaluate_undefined) = (''evaluate'', [(''session'', ''undefined''), (''expr'', ''x'')]) \<and>
   dict_get [(''session'', ''undefined''), (''expr'', ''x'')] ''session'' [] = ''undefined'' \<and>
   variable_examinations (handle_event (session_of []) evaluate_undefined) = 1 \<and>
   unique_sessions_viewed (handle_event (session_of []) evaluate_undefined) = {} \<and>
   ''undefined'' \<notin> unique_sessions_viewed (process_session (session_of [evaluate_undefined]))"
proof -
  have p: "parse_activity (body evaluate_undefined) =
             (''evaluate'', [(''session'', ''undefined''), (''expr'', ''x'')])"
    by code_simp
  have d: "dict_get [(''session'', ''undefined''), (''expr'', ''x'')] ''session'' [] = ''undefined''"
    by (simp add: dict_get_def)
  have e: "unique_sessions_viewed (session_of evs) = {}" "variable_examinations (session_of evs) = 0" for evs
    by (simp_all add: session_of_def new_session_def)
  show ?thesis
    using evaluate_undefined_effect [OF p d, of "session_of []" "session_of [evaluate_undefined]" evaluate_undefined]
      p d e by auto
qed

lemma process_prefix_Suc:
  assumes "n < length (events s)"
  shows "process_prefix s (Suc n) =
           handle_event (process_prefix s n) (sort_key timestamp (events s) ! n)"
proof -
  have "n < length (sort_key timestamp (events s))" using assms by simp
  then show ?thesis
    by (simp add: process_prefix_def Let_def take_Suc_conv_app_nth)
qed

lemma process_prefix_0 [simp]:
  "process_prefix s 0 = s\<lparr>events := sort_key timestamp (events s)\<rparr>"
  by (simp add: process_prefix_def Let_def)

lemma handle_event_exclusive:
  assumes "\<not> (in_stepping s \<and> is_paused s)"
    and "in_stepping s \<Longrightarrow> fst (parse_activity (body ev)) = ''stop'' \<Longrightarrow> ev_service ev = ''ddb-da'' \<Longrightarrow>
           dict_get (snd (parse_activity (body ev))) ''reason'' [] = ''end-stepping-range'' \<or>
           dict_get (snd (parse_activity (body ev))) ''reason'' [] = ''function-finished''"
  shows "\<not> (in_stepping (handle_event s ev) \<and> is_paused (handle_event s ev))"
proof (cases "parse_activity (body ev)")
  case (Pair action params)
  show ?thesis
  proof (cases "action = []")
    case True
    with Pair assms(1) show ?thesis by (simp add: handle_event_def)
  next
    case False
    with Pair have "handle_event s ev = apply_action action params (ev_service ev) (timestamp ev) s"
      by (simp add: handle_event_action)
    with assms Pair show ?thesis
      by (auto simp: apply_action_flags is_step_action_def)
  qed
qed

text \<open>
  Claim C2, as amended. Starting from a session in which a stepping interval and a
  pause interval are not both open (every session of the Builder is such), they are
  not both open after any prefix of the pass, provided that every adapter \<^verbatim>\<open>stop\<close>
  handled while a stepping interval is open carries the reason
  \<^verbatim>\<open>end-stepping-range\<close> or \<^verbatim>\<open>function-finished\<close>. An adapter stop with another reason
  opens the pause interval and leaves the stepping interval open.
\<close>

theorem stepping_pause_exclusive:
  assumes "\<not> (in_stepping s \<and> is_paused s)"
    and "\<forall>k < length (events s).
           in_stepping (process_prefix s k) \<and>
           fst (parse_activity (body (sort_key timestamp (events s) ! k))) = ''stop'' \<and>
           ev_service (sort_key timestamp (events s) ! k) = ''ddb-da'' \<longrightarrow>
           dict_get (snd (parse_activity (body (sort_key timestamp (events s) ! k)))) ''reason'' []
             \<in> {''end-stepping-range'', ''function-finished''}"
    and "n \<le> length (events s)"
  shows "\<not> (in_stepping (process_prefix s n) \<and> is_paused (process_prefix s n))"
  using assms(3)
proof (induction n)
  case 0
  with assms(1) show ?case by simp
next
  case (Suc n)
  then have n: "n < length (events s)" and
    IH: "\<not> (in_stepping (process_prefix s n) \<and> is_paused (process_prefix s n))" by simp_all
  show ?case
    unfolding process_prefix_Suc [OF n]
    by (rule handle_event_exclusive [OF IH]) (use assms(2) n in auto)
qed

text \<open>
  The claim as stated fails: after \<^verbatim>\<open>step_over@10\<close> and an adapter
  \<^verbatim>\<open>stop reason=breakpoint-hit@20\<close> both intervals are open.
\<close>

theorem stepping_pause_counterexample:
  "in_stepping (process_session (session_of step_then_breakpoint)) \<and>
   is_paused (process_session (session_of step_then_breakpoint))"
  by code_simp

theorem stepping_pause_exclusive_witness:
  "\<not> (in_stepping (session_of scenario_A) \<and> is_paused (session_of scenario_A)) \<and>
   (4::nat) \<le> length (events (session_of scenario_A)) \<and>
   \<not> (in_stepping (process_prefix (session_of scenario_A) 4) \<and>
      is_paused (process_prefix (session_of scenario_A) 4)) \<and>
   \<not> in_stepping (process_prefix (session_of scenario_A) 3) \<and>
   is_paused (process_prefix (session_of scenario_A) 3)"
proof -
  have a: "\<not> (in_stepping (session_of scenario_A) \<and> is_paused (session_of scenario_A))"
    by (simp add: session_of_def new_session_def)
  have l: "length (events (session_of scenario_A)) = 4"
    by (simp add: session_of_def scenario_A_def)
  have b: "\<forall>k < length (events (session_of scenario_A)).
           in_stepping (process_prefix (session_of scenario_A) k) \<and>
           fst (parse_activity (body (sort_key timestamp (events (session_of scenario_A)) ! k))) = ''stop'' \<and>
           ev_service (sort_key timestamp (events (session_of scenario_A)) ! k) = ''ddb-da'' \<longrightarrow>
           dict_get (snd (parse_activity (body (sort_key timestamp (events (session_of scenario_A)) ! k)))) ''reason'' []
             \<in> {''end-stepping-range'', ''function-finished''}"
    unfolding l
  proof (rule allI, rule impI)
    fix k :: nat assume "k < 4"
    then consider "k = 0" | "k = 1" | "k = 2" | "k = 3" by linarith
    then show "in_stepping (process_prefix (session_of scenario_A) k) \<and>
           fst (parse_activity (body (sort_key timestamp (events (session_of scenario_A)) ! k))) = ''stop'' \<and>
           ev_service (sort_key timestamp (events (session_of scenario_A)) ! k) = ''ddb-da'' \<longrightarrow>
           dict_get (snd (parse_activity (body (sort_key timestamp (events (session_of scenario_A)) ! k)))) ''reason'' []
             \<in> {''end-stepping-range'', ''function-finished''}"
    proof cases
      case 1 then show ?thesis by simp code_simp
    next
      case 2 then show ?thesis by simp code_simp
    next
      case 3 then show ?thesis by simp code_simp
    next
      case 4 then show ?thesis by simp code_simp
    qed
  qed
  have c: "(4::nat) \<le> length (events (session_of scenario_A))" using l by simp
  have d: "\<not> in_stepping (process_prefix (session_of scenario_A) 3) \<and>
   is_paused (process_prefix (session_of scenario_A) 3)" by code_simp
  show ?thesis
    using stepping_pause_exclusive [OF a b c] a c d by blast
qed

lemma sort_key_twice [simp]: "sort_key timestamp (sort_key timestamp evs) = sort_key timestamp evs"
  by (simp add: sort_key_id_if_sorted)

lemma process_session_again:
  "process_session (process_session s) =
     foldl handle_event (process_session s) (sort_key timestamp (events s))"
proof -
  have e: "events (process_session s) = sort_key timestamp (events s)"
    by (simp add: process_session_def Let_def)
  have "(process_session s)\<lparr>events := events (process_session s)\<rparr> = process_session s"
    by simp
  then have r: "(process_session s)\<lparr>events := sort_key timestamp (events s)\<rparr> = process_session s"
    by (simp only: e)
  have "process_session (process_session s) =
          foldl handle_event ((process_session s)\<lparr>events := sort_key timestamp (events s)\<rparr>)
            (sort_key timestamp (events s))"
    unfolding process_session_def [of "process_session s"] Let_def e by simp
  then show ?thesis by (simp only: r)
qed

lemma rerun_counter:
  fixes c :: "DebugSession \<Rightarrow> int"
  assumes indep: "\<And>s s' ev. c (handle_event s ev) - c s = c (handle_event s' ev) - c s'"
    and upd: "\<And>s evs. c (s\<lparr>events := evs\<rparr>) = c s"
  shows "c (process_session (process_session s)) =
           c (process_session s) + (c (process_session s) - c s)"
proof -
  let ?L = "sort_key timestamp (events s)"
  have "c (process_session s) = c s + sum_list (map (\<lambda>ev. c (handle_event s ev) - c s) ?L)"
    using foldl_counter [of c "s\<lparr>events := ?L\<rparr>" ?L s, OF indep]
    by (simp add: process_session_def Let_def upd)
  moreover have "c (process_session (process_session s)) =
      c (process_session s) + sum_list (map (\<lambda>ev. c (handle_event s ev) - c s) ?L)"
    using foldl_counter [of c "process_session s" ?L s, OF indep]
    by (simp add: process_session_again)
  ultimately show ?thesis by simp
qed

text \<open>
  Claim C3, as amended. The Interpreter never resets a session, so it is repeatable
  only from the state before the first run: run on the session as it was, holding the
  event list as the first run left it, it gives the same session as the first run. Run
  a second time on the processed session itself, it adds to every counter the amount
  the first run added, while \<open>unique_sessions_viewed\<close> and the event list stay as after
  the first run.
\<close>

theorem rerun_accumulates:
  "process_session (s\<lparr>events := events (process_session s)\<rparr>) = process_session s \<and>
   step_count (process_session (process_session s)) =
     step_count (process_session s) + (step_count (process_session s) - step_count s) \<and>
   breakpoint_ops (process_session (process_session s)) =
     breakpoint_ops (process_session s) + (breakpoint_ops (process_session s) - breakpoint_ops s) \<and>
   frame_switches (process_session (process_session s)) =
     frame_switches (process_session s) + (frame_switches (process_session s) - frame_switches s) \<and>
   dbt_frame_switches (process_session (process_session s)) =
     dbt_frame_switches (process_session s) +
       (dbt_frame_switches (process_session s) - dbt_frame_switches s) \<and>
   pause_count (process_session (process_session s)) =
     pause_count (process_session s) + (pause_count (process_session s) - pause_count s) \<and>
   continue_count (process_session (process_session s)) =
     continue_count (process_session s) + (continue_count (process_session s) - continue_count s) \<and>
   jump_count (process_session (process_session s)) =
     jump_count (process_session s) + (jump_count (process_session s) - jump_count s) \<and>
   variable_examinations (process_session (process_session s)) =
     variable_examinations (process_session s) +
       (variable_examinations (process_session s) - variable_examinations s) \<and>
   unique_sessions_viewed (process_session (process_session s)) =
     unique_sessions_viewed (process_session s) \<and>
   events (process_session (process_session s)) = events (process_session s)"
proof -
  have fresh: "process_session (s\<lparr>events := events (process_session s)\<rparr>) = process_session s"
    by (simp add: process_session_def Let_def)
  have viewed: "unique_sessions_viewed (process_session (process_session s)) =
     unique_sessions_viewed (process_session s)"
    unfolding process_session_again
    by (subst foldl_viewed) (auto simp: process_session_def Let_def foldl_viewed)
  have evs: "events (process_session (process_session s)) = events (process_session s)"
    by (simp add: process_session_def Let_def)
  note c = rerun_counter [OF handle_event_counter_indep(1)]
    rerun_counter [OF handle_event_counter_indep(2)]
    rerun_counter [OF handle_event_counter_indep(3)]
    rerun_counter [OF handle_event_counter_indep(4)]
    rerun_counter [OF handle_event_counter_indep(5)]
    rerun_counter [OF handle_event_counter_indep(6)]
    rerun_counter [OF handle_event_counter_indep(7)]
    rerun_counter [OF handle_event_counter_indep(8)]
  show ?thesis
    using fresh viewed evs c [of s] by simp
qed

text \<open>
  The claim as stated fails: for a session with the single event \<^verbatim>\<open>step_over@10\<close> the
  first run gives \<open>step_count = 1\<close> and the second run \<open>step_count = 2\<close>.
\<close>

theorem rerun_counterexample:
  "step_count (process_session (session_of one_step)) = 1 \<and>
   step_count (process_session (process_session (session_of one_step))) = 2"
  by code_simp

theorem rerun_accumulates_witness:
  "process_session ((session_of one_step)\<lparr>events := events (process_session (session_of one_step))\<rparr>)
     = process_session (session_of one_step) \<and>
   step_count (process_session (process_session (session_of one_step))) =
     step_count (process_session (session_of one_step)) +
       (step_count (process_session (session_of one_step)) - step_count (session_of one_step))"
  using rerun_accumulates [of "session_of one_step"] by blast

lemma perm_counter:
  fixes c :: "DebugSession \<Rightarrow> int"
  assumes indep: "\<And>s s' ev. c (handle_event s ev) - c s = c (handle_event s' ev) - c s'"
    and upd: "\<And>s evs. c (s\<lparr>events := evs\<rparr>) = c s"
    and perm: "mset evs' = mset evs"
  shows "c (process_session (s\<lparr>events := evs'\<rparr>)) =
           c (process_session (s\<lparr>events := sort_key timestamp evs\<rparr>))"
proof -
  have m: "mset (sort_key timestamp evs') = mset (sort_key timestamp evs)"
    using perm by simp
  have "c (foldl handle_event (s\<lparr>events := sort_key timestamp evs'\<rparr>) (sort_key timestamp evs')) =
        c (foldl handle_event (s\<lparr>events := sort_key timestamp evs\<rparr>) (sort_key timestamp evs))"
    by (rule foldl_counter_perm [OF indep m]) (simp add: upd)
  then show ?thesis
    by (simp add: process_session_def Let_def)
qed

lemma perm_viewed:
  assumes "mset evs' = mset evs"
  shows "unique_sessions_viewed (process_session (s\<lparr>events := evs'\<rparr>)) =
           unique_sessions_viewed (process_session (s\<lparr>events := sort_key timestamp evs\<rparr>))"
proof -
  have "set evs' = set evs" using assms by (rule mset_eq_setD)
  then show ?thesis
    by (simp add: process_session_def Let_def foldl_viewed)
qed

lemma perm_distinct:
  assumes "mset evs' = mset evs" and "distinct (map timestamp evs)"
  shows "process_session (s\<lparr>events := evs'\<rparr>) =
           process_session (s\<lparr>events := sort_key timestamp evs\<rparr>)"
proof -
  have "inj_on timestamp (set evs)"
    using assms(2) by (simp add: distinct_map)
  moreover have "set evs' = set evs" using assms(1) by (rule mset_eq_setD)
  ultimately have "sort_key timestamp evs' = sort_key timestamp evs"
    using assms(1) by (intro sort_key_eq_sort_key) simp_all
  then show ?thesis
    by (simp add: process_session_def Let_def)
qed

text \<open>
  Claim C4, as amended. For every session and every permutation of its event list, the
  Interpreter gives the same counters and the same \<open>unique_sessions_viewed\<close> as on the
  timestamp-sorted list; and it gives the same session altogether, duration lists and
  open-interval state included, when no two events of the list share a timestamp. The
  sort is stable, so events with equal timestamps are handled in the order of the
  input.
\<close>

theorem order_insensitive:
  assumes "mset evs' = mset evs"
  shows
  "step_count (process_session (s\<lparr>events := evs'\<rparr>)) =
     step_count (process_session (s\<lparr>events := sort_key timestamp evs\<rparr>)) \<and>
   breakpoint_ops (process_session (s\<lparr>events := evs'\<rparr>)) =
     breakpoint_ops (process_session (s\<lparr>events := sort_key timestamp evs\<rparr>)) \<and>
   frame_switches (process_session (s\<lparr>events := evs'\<rparr>)) =
     frame_switches (process_session (s\<lparr>events := sort_key timestamp evs\<rparr>)) \<and>
   dbt_frame_switches (process_session (s\<lparr>events := evs'\<rparr>)) =
     dbt_frame_switches (process_session (s\<lparr>events := sort_key timestamp evs\<rparr>)) \<and>
   pause_count (process_session (s\<lparr>events := evs'\<rparr>)) =
     pause_count (process_session (s\<lparr>events := sort_key timestamp evs\<rparr>)) \<and>
   continue_count (process_session (s\<lparr>events := evs'\<rparr>)) =
     continue_count (process_session (s\<lparr>events := sort_key timestamp evs\<rparr>)) \<and>
   jump_count (process_session (s\<lparr>events := evs'\<rparr>)) =
     jump_count (process_session (s\<lparr>events := sort_key timestamp evs\<rparr>)) \<and>
   signal_count (process_session (s\<lparr>events := evs'\<rparr>)) =
     signal_count (process_session (s\<lparr>events := sort_key timestamp evs\<rparr>)) \<and>
   variable_examinations (process_session (s\<lparr>events := evs'\<rparr>)) =
     variable_examinations (process_session (s\<lparr>events := sort_key timestamp evs\<rparr>)) \<and>
   unique_sessions_viewed (process_session (s\<lparr>events := evs'\<rparr>)) =
     unique_sessions_viewed (process_session (s\<lparr>events := sort_key timestamp evs\<rparr>)) \<and>
   (distinct (map timestamp evs) \<longrightarrow>
      process_session (s\<lparr>events := evs'\<rparr>) =
        process_session (s\<lparr>events := sort_key timestamp evs\<rparr>))"
proof -
  have c1: "step_count (process_session (s\<lparr>events := evs'\<rparr>)) =
     step_count (process_session (s\<lparr>events := sort_key timestamp evs\<rparr>))"
    by (rule perm_counter [OF handle_event_counter_indep(1) _ assms]) simp
  have c2: "breakpoint_ops (process_session (s\<lparr>events := evs'\<rparr>)) =
     breakpoint_ops (process_session (s\<lparr>events := sort_key timestamp evs\<rparr>))"
    by (rule perm_counter [OF handle_event_counter_indep(2) _ assms]) simp
  have c3: "frame_switches (process_session (s\<lparr>events := evs'\<rparr>)) =
     frame_switches (process_session (s\<lparr>events := sort_key timestamp evs\<rparr>))"
    by (rule perm_counter [OF handle_event_counter_indep(3) _ assms]) simp
  have c4: "dbt_frame_switches (process_session (s\<lparr>events := evs'\<rparr>)) =
     dbt_frame_switches (process_session (s\<lparr>events := sort_key timestamp evs\<rparr>))"
    by (rule perm_counter [OF handle_event_counter_indep(4) _ assms]) simp
  have c5: "pause_count (process_session (s\<lparr>events := evs'\<rparr>)) =
     pause_count (process_session (s\<lparr>events := sort_key timestamp evs\<rparr>))"
    by (rule perm_counter [OF handle_event_counter_indep(5) _ assms]) simp
  have c6: "continue_count (process_session (s\<lparr>events := evs'\<rparr>)) =
     continue_count (process_session (s\<lparr>events := sort_key timestamp evs\<rparr>))"
    by (rule perm_counter [OF handle_event_counter_indep(6) _ assms]) simp
  have c7: "jump_count (process_session (s\<lparr>events := evs'\<rparr>)) =
     jump_count (process_session (s\<lparr>events := sort_key timestamp evs\<rparr>))"
    by (rule perm_counter [OF handle_event_counter_indep(7) _ assms]) simp
  have c8: "variable_examinations (process_session (s\<lparr>events := evs'\<rparr>)) =
     variable_examinations (process_session (s\<lparr>events := sort_key timestamp evs\<rparr>))"
    by (rule perm_counter [OF handle_event_counter_indep(8) _ assms]) simp
  have sig: "signal_count (process_session (s\<lparr>events := evs'\<rparr>)) =
     signal_count (process_session (s\<lparr>events := sort_key timestamp evs\<rparr>))"
    by (simp add: process_session_def Let_def)
  note v = perm_viewed [OF assms, of s]
  have d: "distinct (map timestamp evs) \<longrightarrow>
      process_session (s\<lparr>events := evs'\<rparr>) =
        process_session (s\<lparr>events := sort_key timestamp evs\<rparr>)"
    using perm_distinct [OF assms, of s] by (rule impI)
  show ?thesis
    by (intro conjI) (rule c1 c2 c3 c4 c5 c6 c7 c8 sig v d)+
qed

text \<open>
  The claim as stated fails: a \<^verbatim>\<open>step_over\<close> and the adapter stop that ends it, both at
  timestamp 10, give the stepping durations \<open>[0]\<close> in one input order and none in the
  other.
\<close>

theorem order_counterexample:
  "mset stop_step_tie = mset step_stop_tie \<and>
   step_durations (process_session (session_of stop_step_tie)) = [] \<and>
   step_durations (process_session (session_of (sort_key timestamp step_stop_tie))) = [0]"
proof -
  have "mset stop_step_tie = mset step_stop_tie"
    by (simp add: stop_step_tie_def step_stop_tie_def)
  moreover have "step_durations (process_session (session_of stop_step_tie)) = []"
    by code_simp
  moreover have "step_durations (process_session (session_of (sort_key timestamp step_stop_tie))) = [0]"
    by code_simp
  ultimately show ?thesis by (intro conjI)
qed

theorem order_insensitive_witness:
  "mset (rev scenario_A) = mset scenario_A \<and> distinct (map timestamp scenario_A) \<and>
   process_session ((session_of [])\<lparr>events := rev scenario_A\<rparr>) =
     process_session ((session_of [])\<lparr>events := sort_key timestamp scenario_A\<rparr>)"
proof -
  have m: "mset (rev scenario_A) = mset scenario_A" by simp
  have d: "distinct (map timestamp scenario_A)"
    by (simp add: scenario_A_def init_at_def mk_event_def)
  have "process_session ((session_of [])\<lparr>events := rev scenario_A\<rparr>) =
     process_session ((session_of [])\<lparr>events := sort_key timestamp scenario_A\<rparr>)"
    using order_insensitive [OF m, of "session_of []"] d by (elim conjE) (erule mp)
  with m d show ?thesis by (intro conjI)
qed

section \<open>The Session Builder\<close>


lemma find_next_stop_Ts:
  "find_next_stop stop_events init_ts stop_idx = (j, Ts x) \<Longrightarrow>
   stop_idx \<le> j \<and> j < length stop_events \<and> x = timestamp (stop_events ! j) \<and> init_ts < x"
proof (induction stop_events init_ts stop_idx rule: find_next_stop.induct)
  case (1 stop_events init_ts stop_idx)
  show ?case
  proof (cases "stop_idx < length stop_events \<and> \<not> timestamp (stop_events ! stop_idx) > init_ts")
    case True
    with "1.prems" have "find_next_stop stop_events init_ts (stop_idx + 1) = (j, Ts x)"
      by (subst (asm) find_next_stop.simps) simp
    with "1.IH" True show ?thesis by simp
  next
    case False
    with "1.prems" show ?thesis
      by (subst (asm) find_next_stop.simps) (auto split: if_splits)
  qed
qed

lemma find_next_stop_PosInf:
  "(snd (find_next_stop stop_events init_ts stop_idx) = PosInf) =
   (\<forall>k. stop_idx \<le> k \<and> k < length stop_events \<longrightarrow> timestamp (stop_events ! k) \<le> init_ts)"
proof (induction stop_events init_ts stop_idx rule: find_next_stop.induct)
  case (1 stop_events init_ts stop_idx)
  show ?case
  proof (cases "stop_idx < length stop_events")
    case False
    then show ?thesis by (subst find_next_stop.simps) simp
  next
    case in_range: True
    show ?thesis
    proof (cases "timestamp (stop_events ! stop_idx) > init_ts")
      case True
      with in_range have "snd (find_next_stop stop_events init_ts stop_idx) \<noteq> PosInf"
        by (subst find_next_stop.simps) simp
      moreover from True in_range have
        "\<not> (\<forall>k. stop_idx \<le> k \<and> k < length stop_events \<longrightarrow> timestamp (stop_events ! k) \<le> init_ts)"
        by (meson leD order_refl)
      ultimately show ?thesis by simp
    next
      case False
      with in_range have eq: "find_next_stop stop_events init_ts stop_idx =
                   find_next_stop stop_events init_ts (stop_idx + 1)"
        by (subst find_next_stop.simps) simp
      have "(\<forall>k. stop_idx \<le> k \<and> k < length stop_events \<longrightarrow> timestamp (stop_events ! k) \<le> init_ts) =
            (\<forall>k. stop_idx + 1 \<le> k \<and> k < length stop_events \<longrightarrow> timestamp (stop_events ! k) \<le> init_ts)"
        using False by (metis Suc_eq_plus1 Suc_leI le_eq_less_or_eq not_less Suc_leD)
      with "1.IH" [OF in_range False] eq show ?thesis by simp
    qed
  qed
qed

lemma sorted_le_last:
  assumes "sorted (map f xs)" and "x \<in> set xs"
  shows "f x \<le> f (last xs)"
proof -
  from assms(2) obtain i where i: "i < length xs" "xs ! i = x"
    by (auto simp: in_set_conv_nth)
  then have ne: "xs \<noteq> []" by auto
  have "map f xs ! i \<le> map f xs ! (length xs - 1)"
    using assms(1) i(1) by (intro sorted_nth_mono) auto
  with i ne show ?thesis by (simp add: last_conv_nth)
qed

lemma sorted_last_Max:
  assumes "sorted (map f xs)" and "xs \<noteq> []"
  shows "f (last xs) = Max (f ` set xs)"
proof (rule sym, rule Max_eqI)
  show "finite (f ` set xs)" by simp
  show "\<And>y. y \<in> f ` set xs \<Longrightarrow> y \<le> f (last xs)"
    using sorted_le_last [OF assms(1)] by auto
  show "f (last xs) \<in> f ` set xs" using assms(2) by simp
qed

lemma session_end_ts_total: "evs \<noteq> [] \<Longrightarrow> \<exists>t. session_end_ts evs c = Inr t"
  by (cases c) (simp_all add: session_end_ts_def)

lemma session_step_total:
  assumes "evs \<noteq> []"
  shows "\<exists>s j. session_step evs stop_events uid init_ev next_init_ts stop_idx = Inr (s, j)"
proof -
  obtain idx1 next_stop_ts where f: "find_next_stop stop_events (timestamp init_ev) stop_idx = (idx1, next_stop_ts)"
    by (cases "find_next_stop stop_events (timestamp init_ev) stop_idx")
  obtain t where "session_end_ts evs (ts_min next_init_ts next_stop_ts) = Inr t"
    using session_end_ts_total [OF assms] by blast
  with f show ?thesis by (simp add: session_step_def Let_def)
qed

lemma session_step_Inr:
  assumes "session_step evs stop_events uid init_ev next_init_ts stop_idx = Inr (s, j)"
  shows "session_end_ts evs (ts_min next_init_ts
            (snd (find_next_stop stop_events (timestamp init_ev) stop_idx))) = Inr (end_ts s)"
    and "s = (new_session uid (dict_get (resources_string init_ev) ''session.id'' [])
               (timestamp init_ev) (end_ts s))
             \<lparr>events := filter (\<lambda>ev. timestamp init_ev \<le> timestamp ev \<and> timestamp ev \<le> end_ts s) evs\<rparr>"
    and "j = (if ts_le (snd (find_next_stop stop_events (timestamp init_ev) stop_idx)) next_init_ts \<and>
                 snd (find_next_stop stop_events (timestamp init_ev) stop_idx) \<noteq> PosInf
              then fst (find_next_stop stop_events (timestamp init_ev) stop_idx) + 1
              else fst (find_next_stop stop_events (timestamp init_ev) stop_idx))"
  using assms
  by (auto simp: session_step_def Let_def new_session_def split: prod.splits sum.splits)

lemma session_step_fields:
  assumes "session_step evs stop_events uid init_ev next_init_ts stop_idx = Inr (s, j)"
  shows "start_ts s = timestamp init_ev" and "user_id s = uid" and "signal_count s = 0"
    and "\<not> in_stepping s" and "\<not> is_paused s"
    and "events s = filter (\<lambda>ev. timestamp init_ev \<le> timestamp ev \<and> timestamp ev \<le> end_ts s) evs"
  by (subst session_step_Inr(2) [OF assms], simp add: new_session_def)+


lemma session_step_start_le_end:
  assumes step: "session_step evs stop_events uid init_ev next_init_ts stop_idx = Inr (s, j)"
    and mem: "init_ev \<in> set evs" and srt: "sorted (map timestamp evs)"
    and nxt: "ts_le (Ts (timestamp init_ev)) next_init_ts"
  shows "start_ts s \<le> end_ts s"
proof -
  obtain idx1 next_stop_ts where f: "find_next_stop stop_events (timestamp init_ev) stop_idx = (idx1, next_stop_ts)"
    by (cases "find_next_stop stop_events (timestamp init_ev) stop_idx")
  have e: "session_end_ts evs (ts_min next_init_ts next_stop_ts) = Inr (end_ts s)"
    using session_step_Inr(1) [OF step] f by simp
  have stop: "next_stop_ts = Ts x \<Longrightarrow> timestamp init_ev < x" for x
    using find_next_stop_Ts [of stop_events "timestamp init_ev" stop_idx idx1 x] f by simp
  have "timestamp init_ev \<le> end_ts s"
  proof (cases "ts_min next_init_ts next_stop_ts")
    case (Ts t)
    with e have t: "end_ts s = t" by (simp add: session_end_ts_def)
    from Ts nxt stop show ?thesis unfolding t
      by (cases next_init_ts; cases next_stop_ts) (auto split: if_splits)
  next
    case PosInf
    with e mem have "end_ts s = timestamp (last evs)"
      by (auto simp: session_end_ts_def split: if_splits)
    with sorted_le_last [OF srt mem] show ?thesis by simp
  qed
  then show ?thesis by (simp add: session_step_fields(1) [OF step])
qed

lemma collect_markers_inits: "fst (collect_markers evs) = filter is_da_init evs"
  by (induction evs) (auto simp: Let_def split: prod.splits)

lemma pair_sessions_ok:
  assumes "set inits \<subseteq> set evs" and "sorted (map timestamp evs)" and "sorted (map timestamp inits)"
  shows "\<exists>ps. pair_sessions evs stop_events uid inits stop_idx = Inr ps \<and>
              (\<forall>p \<in> set ps. start_ts (fst p) \<le> end_ts (fst p) \<and> signal_count (fst p) = 0)"
  using assms(1,3)
proof (induction inits arbitrary: stop_idx)
  case Nil
  show ?case by simp
next
  case (Cons init_ev rest)
  then have mem: "init_ev \<in> set evs" by simp
  then have "evs \<noteq> []" by auto
  then obtain s j where
    step: "session_step evs stop_events uid init_ev (next_init_of rest) stop_idx = Inr (s, j)"
    using session_step_total by blast
  have nxt: "ts_le (Ts (timestamp init_ev)) (next_init_of rest)"
    using Cons.prems(2) by (cases rest) simp_all
  have s: "start_ts s \<le> end_ts s \<and> signal_count s = 0"
    using session_step_start_le_end [OF step mem assms(2) nxt] session_step_fields(3) [OF step]
    by simp
  from Cons.prems have "set rest \<subseteq> set evs" "sorted (map timestamp rest)" by simp_all
  from Cons.IH [OF this, of j] obtain ps where
    ps: "pair_sessions evs stop_events uid rest j = Inr ps"
      "\<forall>p \<in> set ps. start_ts (fst p) \<le> end_ts (fst p) \<and> signal_count (fst p) = 0"
    by blast
  have "pair_sessions evs stop_events uid (init_ev # rest) stop_idx = Inr ((s, j) # ps)"
    using step ps(1) by simp
  with s ps(2) show ?case by simp
qed


lemma user_sessions_ok:
  "\<exists>ps. user_sessions uid evs0 = Inr ps \<and>
        (\<forall>p \<in> set ps. start_ts (fst p) \<le> end_ts (fst p) \<and> signal_count (fst p) = 0)"
proof -
  let ?evs = "sort_key timestamp evs0"
  obtain da_inits stop_events0 where c: "collect_markers ?evs = (da_inits, stop_events0)"
    by (cases "collect_markers ?evs")
  then have i: "da_inits = filter is_da_init ?evs"
    using collect_markers_inits [of ?evs] by simp
  have "set da_inits \<subseteq> set ?evs" unfolding i by auto
  moreover have "sorted (map timestamp ?evs)" by simp
  moreover have "sorted (map timestamp da_inits)" unfolding i by (simp add: sorted_filter)
  ultimately show ?thesis
    using pair_sessions_ok [of da_inits ?evs "sort_key timestamp stop_events0" uid 0] c
    by (simp add: user_sessions_def Let_def)
qed

lemma build_users_ok:
  "\<exists>ss. build_users groups = Inr ss \<and>
        (\<forall>s \<in> set ss. start_ts s \<le> end_ts s \<and> signal_count s = 0)"
proof (induction groups)
  case Nil
  show ?case by simp
next
  case (Cons g groups)
  obtain uid evs where g: "g = (uid, evs)" by (cases g)
  obtain ps where ps: "user_sessions uid evs = Inr ps"
    "\<forall>p \<in> set ps. start_ts (fst p) \<le> end_ts (fst p) \<and> signal_count (fst p) = 0"
    using user_sessions_ok by blast
  from Cons.IH obtain ss where ss: "build_users groups = Inr ss"
    "\<forall>s \<in> set ss. start_ts s \<le> end_ts s \<and> signal_count s = 0"
    by blast
  have "build_users (g # groups) = Inr (map fst ps @ ss)"
    using ps(1) ss(1) g by simp
  with ps(2) ss(2) show ?case by auto
qed

text \<open>
  Claim C9. For every input batch, every session the Builder returns has
  \<open>signal_count = 0\<close> after the Interpreter has processed it.
\<close>

theorem signal_count_zero:
  "\<exists>ss. build_debug_sessions batch = Inr ss \<and>
        (\<forall>s \<in> set ss. signal_count (process_session s) = 0)"
proof -
  obtain ss where "build_debug_sessions batch = Inr ss" "\<forall>s \<in> set ss. signal_count s = 0"
    using build_users_ok [of "group_by_user batch"] by (auto simp: build_debug_sessions_def)
  moreover have "signal_count (process_session s) = signal_count s" for s
    by (simp add: process_session_def Let_def)
  ultimately show ?thesis by simp
qed

theorem signal_count_zero_witness:
  "map_sum id (map (\<lambda>s. signal_count (process_session s))) (build_debug_sessions scenario_A) = Inr [0]"
proof -
  obtain ss where ss: "build_debug_sessions scenario_A = Inr ss"
    "\<forall>s \<in> set ss. signal_count (process_session s) = 0"
    using signal_count_zero [of scenario_A] by blast
  have "map_sum id length (build_debug_sessions scenario_A) = Inr 1"
    by code_simp
  with ss(1) have "length ss = 1" by simp
  then obtain s where "ss = [s]" by (cases ss) auto
  with ss show ?thesis by simp
qed

text \<open>
  What the Builder attaches to a session: events of the batch, of the session's user,
  with a timestamp inside the session's window.
\<close>

lemma append_user_map_of:
  "map_of (append_user uid ev m) =
     (map_of m)(uid \<mapsto> (case map_of m uid of None \<Rightarrow> [ev] | Some es \<Rightarrow> es @ [ev]))"
  by (induction m) (auto simp: fun_eq_iff)

lemma append_user_keys:
  "map fst (append_user uid ev m) =
     (if uid \<in> fst ` set m then map fst m else map fst m @ [uid])"
proof (induction m)
  case Nil
  show ?case by simp
next
  case (Cons kv m)
  obtain k es where kv: "kv = (k, es)" by (cases kv)
  show ?case
  proof (cases "k = uid")
    case True
    with kv show ?thesis by simp
  next
    case False
    with kv Cons.IH show ?thesis by (cases "uid \<in> fst ` set m") auto
  qed
qed

lemma group_by_user_snoc:
  "group_by_user (evs @ [ev]) =
     (if ev_user ev \<noteq> [] then append_user (ev_user ev) ev (group_by_user evs)
      else group_by_user evs)"
  by (simp add: group_by_user_def)

lemma group_by_user_distinct: "distinct (map fst (group_by_user evs))"
proof (induction evs rule: rev_induct)
  case Nil
  show ?case by (simp add: group_by_user_def)
next
  case (snoc ev evs)
  then show ?case by (auto simp: group_by_user_snoc append_user_keys)
qed

lemma group_by_user_map_of:
  "map_of (group_by_user evs) uid =
     (if uid \<noteq> [] \<and> filter (\<lambda>e. ev_user e = uid) evs \<noteq> []
      then Some (filter (\<lambda>e. ev_user e = uid) evs) else None)"
proof (induction evs rule: rev_induct)
  case Nil
  show ?case by (simp add: group_by_user_def)
next
  case (snoc ev evs)
  then show ?case
    by (auto simp: group_by_user_snoc append_user_map_of)
qed

lemma group_by_user_member:
  assumes "(uid, evs) \<in> set (group_by_user batch)"
  shows "uid \<noteq> [] \<and> evs = filter (\<lambda>e. ev_user e = uid) batch"
proof -
  have "map_of (group_by_user batch) uid = Some evs"
    using assms group_by_user_distinct by simp
  then show ?thesis
    by (simp add: group_by_user_map_of split: if_splits)
qed

lemma pair_sessions_member:
  assumes "pair_sessions evs stop_events uid inits stop_idx = Inr ps" and "p \<in> set ps"
  shows "user_id (fst p) = uid \<and>
         events (fst p) = filter (\<lambda>ev. start_ts (fst p) \<le> timestamp ev \<and>
                                        timestamp ev \<le> end_ts (fst p)) evs"
  using assms
proof (induction inits arbitrary: stop_idx ps)
  case Nil
  then show ?case by simp
next
  case (Cons init_ev rest)
  from Cons.prems(1) obtain s j ps' where
    step: "session_step evs stop_events uid init_ev (next_init_of rest) stop_idx = Inr (s, j)"
    and rest: "pair_sessions evs stop_events uid rest j = Inr ps'"
    and ps: "ps = (s, j) # ps'"
    by (auto split: sum.splits prod.splits)
  show ?case
  proof (cases "p = (s, j)")
    case True
    then show ?thesis
      using session_step_fields(1,2,6) [OF step] by simp
  next
    case False
    with Cons.prems(2) ps have "p \<in> set ps'" by simp
    with Cons.IH [OF rest] show ?thesis .
  qed
qed

lemma build_users_member:
  assumes "build_users groups = Inr ss" and "s \<in> set ss"
  shows "\<exists>uid evs. (uid, evs) \<in> set groups \<and> user_id s = uid \<and>
           events s = filter (\<lambda>ev. start_ts s \<le> timestamp ev \<and> timestamp ev \<le> end_ts s)
                        (sort_key timestamp evs)"
  using assms
proof (induction groups arbitrary: ss)
  case Nil
  then show ?case by simp
next
  case (Cons g groups)
  obtain uid evs where g: "g = (uid, evs)" by (cases g)
  from Cons.prems(1) g obtain ps ss' where
    u: "user_sessions uid evs = Inr ps" and r: "build_users groups = Inr ss'"
    and ss: "ss = map fst ps @ ss'"
    by (auto split: sum.splits)
  from Cons.prems(2) ss consider "s \<in> fst ` set ps" | "s \<in> set ss'" by auto
  then show ?case
  proof cases
    case 1
    then obtain p where p: "p \<in> set ps" "s = fst p" by auto
    obtain da_inits stop_events0 where
      c: "collect_markers (sort_key timestamp evs) = (da_inits, stop_events0)"
      by (cases "collect_markers (sort_key timestamp evs)")
    with u have "pair_sessions (sort_key timestamp evs) (sort_key timestamp stop_events0) uid da_inits 0 = Inr ps"
      by (simp add: user_sessions_def Let_def)
    from pair_sessions_member [OF this p(1)] p(2) g show ?thesis by auto
  next
    case 2
    from Cons.IH [OF r 2] show ?thesis by auto
  qed
qed

lemma attached_events_in_window:
  assumes "build_debug_sessions batch = Inr ss" and "s \<in> set ss" and "ev \<in> set (events s)"
  shows "ev \<in> set batch \<and> ev_user ev = user_id s \<and>
         start_ts s \<le> timestamp ev \<and> timestamp ev \<le> end_ts s"
proof -
  from assms(1,2) obtain uid evs where
    g: "(uid, evs) \<in> set (group_by_user batch)" and u: "user_id s = uid"
    and e: "events s = filter (\<lambda>ev. start_ts s \<le> timestamp ev \<and> timestamp ev \<le> end_ts s)
                        (sort_key timestamp evs)"
    using build_users_member unfolding build_debug_sessions_def by blast
  from group_by_user_member [OF g] have evs: "evs = filter (\<lambda>e. ev_user e = uid) batch" by simp
  from assms(3) e have "ev \<in> set evs" "start_ts s \<le> timestamp ev \<and> timestamp ev \<le> end_ts s"
    by (metis (no_types, lifting) mem_Collect_eq set_filter set_sort)+
  with evs u show ?thesis by auto
qed

text \<open>
  Claim C1 says that the event subsets of one user's sessions are pairwise disjoint.
  The code does otherwise on the batch \<open>init@0\<close>, \<open>init@10\<close>, \<open>step_over@10\<close> of one user:
  the first session is the window from 0 to 10, the second one the window from 10 to
  10, and the second initialisation and the step are attached to both, so that the
  step is counted in both sessions.
\<close>

theorem boundary_event_in_two_sessions:
  "map_sum id (map events) (build_debug_sessions boundary_batch) =
     Inr [[init_at 0, init_at 10, mk_event 10 ''ddb-da'' ''[activity] step_over''],
          [init_at 10, mk_event 10 ''ddb-da'' ''[activity] step_over'']] \<and>
   map_sum id (map (\<lambda>s. (start_ts s, end_ts s, step_count (process_session s))))
     (build_debug_sessions boundary_batch) = Inr [(0, 10, 1), (10, 10, 1)]"
  by code_simp

text \<open>The rounds of the loop, and the sessions of one user in the Builder's result.\<close>

lemma user_sessions_pair:
  "user_sessions uid evs0 =
     pair_sessions (sort_key timestamp evs0) (user_stops evs0) uid (user_inits evs0) 0"
  by (simp add: user_sessions_def user_stops_def user_inits_def Let_def split: prod.splits)

lemma user_inits_filter: "user_inits evs0 = filter is_da_init (sort_key timestamp evs0)"
  by (simp add: user_inits_def collect_markers_inits)

lemma scan_start_Cons:
  "scan_start idx0 ((s, j) # ps) (Suc i) = scan_start j ps i"
  by (cases i) (simp_all add: scan_start_def)

lemma pair_sessions_chain:
  assumes "pair_sessions evs stop_events uid inits idx0 = Inr ps"
  shows "length ps = length inits \<and>
         (\<forall>i < length ps.
            session_step evs stop_events uid (inits ! i) (next_init_of (drop (Suc i) inits))
              (scan_start idx0 ps i) = Inr (ps ! i))"
  using assms
proof (induction inits arbitrary: idx0 ps)
  case Nil
  then show ?case by simp
next
  case (Cons init_ev rest)
  from Cons.prems obtain s j ps' where
    step: "session_step evs stop_events uid init_ev (next_init_of rest) idx0 = Inr (s, j)"
    and rest: "pair_sessions evs stop_events uid rest j = Inr ps'"
    and ps: "ps = (s, j) # ps'"
    by (auto split: sum.splits prod.splits)
  from Cons.IH [OF rest] have len: "length ps' = length rest"
    and IH: "\<And>i. i < length ps' \<Longrightarrow>
            session_step evs stop_events uid (rest ! i) (next_init_of (drop (Suc i) rest))
              (scan_start j ps' i) = Inr (ps' ! i)"
    by simp_all
  have "session_step evs stop_events uid ((init_ev # rest) ! i)
          (next_init_of (drop (Suc i) (init_ev # rest))) (scan_start idx0 ps i) = Inr (ps ! i)"
    if "i < length ps" for i
  proof (cases i)
    case 0
    with step ps show ?thesis by (simp add: scan_start_def)
  next
    case (Suc i')
    with that ps have "i' < length ps'" by simp
    from IH [OF this] show ?thesis
      unfolding Suc ps by (simp add: scan_start_Cons)
  qed
  with len ps show ?case by simp
qed


lemma user_sessions_user:
  assumes "user_sessions uid evs0 = Inr ps" and "p \<in> set ps"
  shows "user_id (fst p) = uid"
  using pair_sessions_member [OF assms(1) [unfolded user_sessions_pair] assms(2)] by simp

lemma user_sessions_empty: "user_sessions uid [] = Inr []"
  by (simp add: user_sessions_def)

lemma build_users_filter:
  assumes "build_users groups = Inr ss" and "distinct (map fst groups)"
  shows "\<exists>ps. (case map_of groups uid of None \<Rightarrow> Inr [] | Some evs \<Rightarrow> user_sessions uid evs) = Inr ps \<and>
              filter (\<lambda>s. user_id s = uid) ss = map fst ps"
  using assms
proof (induction groups arbitrary: ss)
  case Nil
  then show ?case by simp
next
  case (Cons g groups)
  obtain u evs where g: "g = (u, evs)" by (cases g)
  from Cons.prems(1) g obtain ps_u ss' where
    u: "user_sessions u evs = Inr ps_u" and r: "build_users groups = Inr ss'"
    and ss: "ss = map fst ps_u @ ss'"
    by (auto split: sum.splits)
  from Cons.prems(2) g have d: "distinct (map fst groups)" and nu: "u \<notin> fst ` set groups"
    by simp_all
  from Cons.IH [OF r d] obtain ps' where
    ps': "(case map_of groups uid of None \<Rightarrow> Inr [] | Some evs \<Rightarrow> user_sessions uid evs) = Inr ps'"
      "filter (\<lambda>s. user_id s = uid) ss' = map fst ps'"
    by blast
  have all_u: "\<forall>s \<in> set (map fst ps_u). user_id s = u"
    using user_sessions_user [OF u] by auto
  show ?case
  proof (cases "u = uid")
    case True
    with nu have "map_of groups uid = None"
      by (simp add: map_of_eq_None_iff)
    with ps' have "filter (\<lambda>s. user_id s = uid) ss' = []" by simp
    moreover from all_u True have "filter (\<lambda>s. user_id s = uid) (map fst ps_u) = map fst ps_u"
      by (simp add: filter_id_conv)
    ultimately show ?thesis using u True g ss by simp
  next
    case False
    with all_u have "filter (\<lambda>s. user_id s = uid) (map fst ps_u) = []"
      by (simp add: filter_empty_conv)
    with ps' False g ss show ?thesis by simp
  qed
qed

lemma builder_user_sessions:
  assumes "build_debug_sessions batch = Inr ss" and "uid \<noteq> []"
  shows "\<exists>ps. user_sessions uid (user_events batch uid) = Inr ps \<and>
              filter (\<lambda>s. user_id s = uid) ss = map fst ps"
proof -
  from build_users_filter [OF assms(1) [unfolded build_debug_sessions_def] group_by_user_distinct, of uid]
  obtain ps where ps:
    "(case map_of (group_by_user batch) uid of None \<Rightarrow> Inr [] | Some evs \<Rightarrow> user_sessions uid evs) = Inr ps"
    "filter (\<lambda>s. user_id s = uid) ss = map fst ps"
    by blast
  show ?thesis
  proof (cases "filter (\<lambda>e. ev_user e = uid) batch = []")
    case True
    with ps assms(2) show ?thesis
      by (simp add: group_by_user_map_of user_events_def user_sessions_empty)
  next
    case False
    with ps assms(2) show ?thesis
      by (simp add: group_by_user_map_of user_events_def)
  qed
qed

lemma collect_markers_stops:
  "set (snd (collect_markers evs)) \<subseteq> {ev \<in> set evs. is_ext_stop ev \<or> is_api_stop ev}"
  by (induction evs) (auto simp: Let_def split: prod.splits if_splits)

lemma user_stops_subset:
  "set (user_stops evs0) \<subseteq> {ev \<in> set evs0. is_ext_stop ev \<or> is_api_stop ev}"
  using collect_markers_stops [of "sort_key timestamp evs0"] by (simp add: user_stops_def)

lemma open_session_end:
  assumes ps: "user_sessions uid evs0 = Inr ps" and ne: "ps \<noteq> []"
    and nostop: "\<forall>k. scan_start 0 ps (length ps - 1) \<le> k \<and> k < length (user_stops evs0) \<longrightarrow>
                    timestamp (user_stops evs0 ! k) \<le> start_ts (fst (last ps))"
  shows "end_ts (fst (last ps)) = Max (timestamp ` set evs0)"
proof -
  let ?evs = "sort_key timestamp evs0"
  let ?inits = "user_inits evs0"
  let ?n = "length ps - 1"
  from ps have pair: "pair_sessions ?evs (user_stops evs0) uid ?inits 0 = Inr ps"
    by (simp add: user_sessions_pair)
  from pair_sessions_chain [OF pair] have len: "length ps = length ?inits"
    and chain: "\<And>i. i < length ps \<Longrightarrow>
       session_step ?evs (user_stops evs0) uid (?inits ! i)
         (next_init_of (drop (Suc i) ?inits)) (scan_start 0 ps i) = Inr (ps ! i)"
    by simp_all
  from ne have n: "?n < length ps" by (cases ps) simp_all
  from chain [OF n] have step: "session_step ?evs (user_stops evs0) uid (?inits ! ?n)
                 (next_init_of (drop (Suc ?n) ?inits)) (scan_start 0 ps ?n) = Inr (ps ! ?n)" .
  from ne have last: "last ps = ps ! ?n" by (simp add: last_conv_nth)
  obtain s j where sj: "ps ! ?n = (s, j)" by (cases "ps ! ?n")
  from len ne have "drop (Suc ?n) ?inits = []" by simp
  with step sj have step': "session_step ?evs (user_stops evs0) uid (?inits ! ?n) PosInf
                 (scan_start 0 ps ?n) = Inr (s, j)"
    by simp
  have start: "start_ts s = timestamp (?inits ! ?n)"
    using session_step_fields(1) [OF step'] .
  from len n have "?inits ! ?n \<in> set ?inits" by (intro nth_mem) simp
  then have mem: "?inits ! ?n \<in> set ?evs" by (simp add: user_inits_filter)
  then have evs_ne: "?evs \<noteq> []" by (auto simp del: set_sort)
  have "snd (find_next_stop (user_stops evs0) (timestamp (?inits ! ?n)) (scan_start 0 ps ?n)) = PosInf"
    using nostop start last sj by (simp add: find_next_stop_PosInf)
  with session_step_Inr(1) [OF step'] evs_ne have "end_ts s = timestamp (last ?evs)"
    by (simp add: session_end_ts_def)
  also have "\<dots> = Max (timestamp ` set ?evs)"
    using evs_ne by (intro sorted_last_Max) simp_all
  finally show ?thesis using last sj by simp
qed

text \<open>
  Claim C7. For every batch the Builder returns, and every session it returns has
  \<open>start_ts \<le> end_ts\<close>. For every user, the sessions of that user in the result are, in
  order, the sessions of the rounds of the loop on that user's events of the batch; the
  last of them is the session of the user's last initialisation marker (no later
  initialisation marker). If no stop marker at or after the scan position at the start
  of its round is later than its \<open>start_ts\<close> (no unconsumed later stop marker), its \<open>end_ts\<close>
  is the latest timestamp among that user's events of the batch. The same holds, in
  particular, when no stop marker of that user at all is later than its \<open>start_ts\<close>.
\<close>

theorem session_bounds:
  "\<exists>ss. build_debug_sessions batch = Inr ss \<and>
        (\<forall>s \<in> set ss. start_ts s \<le> end_ts s) \<and>
        (\<forall>uid. uid \<noteq> [] \<longrightarrow>
           (\<exists>ps. user_sessions uid (user_events batch uid) = Inr ps \<and>
                 filter (\<lambda>s. user_id s = uid) ss = map fst ps \<and>
                 (ps \<noteq> [] \<and>
                  (\<forall>k. scan_start 0 ps (length ps - 1) \<le> k \<and>
                        k < length (user_stops (user_events batch uid)) \<longrightarrow>
                        timestamp (user_stops (user_events batch uid) ! k)
                          \<le> start_ts (fst (last ps))) \<longrightarrow>
                  end_ts (fst (last ps)) = Max (timestamp ` set (user_events batch uid))) \<and>
                 (ps \<noteq> [] \<and>
                  (\<forall>ev \<in> set (user_events batch uid).
                      is_ext_stop ev \<or> is_api_stop ev \<longrightarrow>
                      timestamp ev \<le> start_ts (fst (last ps))) \<longrightarrow>
                  end_ts (fst (last ps)) = Max (timestamp ` set (user_events batch uid)))))"
proof -
  obtain ss where ss: "build_debug_sessions batch = Inr ss"
    and le: "\<forall>s \<in> set ss. start_ts s \<le> end_ts s"
    using build_users_ok [of "group_by_user batch"] by (auto simp: build_debug_sessions_def)
  have "\<exists>ps. user_sessions uid (user_events batch uid) = Inr ps \<and>
                 filter (\<lambda>s. user_id s = uid) ss = map fst ps \<and>
                 (ps \<noteq> [] \<and>
                  (\<forall>k. scan_start 0 ps (length ps - 1) \<le> k \<and>
                        k < length (user_stops (user_events batch uid)) \<longrightarrow>
                        timestamp (user_stops (user_events batch uid) ! k)
                          \<le> start_ts (fst (last ps))) \<longrightarrow>
                  end_ts (fst (last ps)) = Max (timestamp ` set (user_events batch uid))) \<and>
                 (ps \<noteq> [] \<and>
                  (\<forall>ev \<in> set (user_events batch uid).
                      is_ext_stop ev \<or> is_api_stop ev \<longrightarrow>
                      timestamp ev \<le> start_ts (fst (last ps))) \<longrightarrow>
                  end_ts (fst (last ps)) = Max (timestamp ` set (user_events batch uid)))"
    if uid: "uid \<noteq> []" for uid
  proof -
    let ?evs0 = "user_events batch uid"
    from builder_user_sessions [OF ss uid] obtain ps where
      ps: "user_sessions uid ?evs0 = Inr ps" and f: "filter (\<lambda>s. user_id s = uid) ss = map fst ps"
      by blast
    have a: "end_ts (fst (last ps)) = Max (timestamp ` set ?evs0)"
      if "ps \<noteq> [] \<and> (\<forall>k. scan_start 0 ps (length ps - 1) \<le> k \<and> k < length (user_stops ?evs0) \<longrightarrow>
                        timestamp (user_stops ?evs0 ! k) \<le> start_ts (fst (last ps)))"
      using open_session_end [OF ps] that by blast
    have b: "end_ts (fst (last ps)) = Max (timestamp ` set ?evs0)"
      if h: "ps \<noteq> [] \<and> (\<forall>ev \<in> set ?evs0. is_ext_stop ev \<or> is_api_stop ev \<longrightarrow>
                      timestamp ev \<le> start_ts (fst (last ps)))"
    proof -
      have "timestamp (user_stops ?evs0 ! k) \<le> start_ts (fst (last ps))"
        if "k < length (user_stops ?evs0)" for k
      proof -
        from that have "user_stops ?evs0 ! k \<in> set (user_stops ?evs0)" by simp
        with user_stops_subset [of ?evs0] h show ?thesis by blast
      qed
      with a h show ?thesis by blast
    qed
    from ps f a b show ?thesis by blast
  qed
  with ss le show ?thesis by blast
qed

theorem session_bounds_witness:
  "map_sum id (map (\<lambda>s. (user_id s, start_ts s, end_ts s))) (build_debug_sessions stale_stop_batch)
     = Inr [(''u1'', 20, 30)] \<and>
   user_stops (user_events stale_stop_batch ''u1'') = [ext_stop_at 10] \<and>
   map_sum id (map (\<lambda>p. (start_ts (fst p), snd p)))
     (user_sessions ''u1'' (user_events stale_stop_batch ''u1'')) = Inr [(20, 1)] \<and>
   map_sum id (map (\<lambda>p. end_ts (fst p)))
     (user_sessions ''u1'' (user_events stale_stop_batch ''u1''))
     = Inr [Max (timestamp ` set (user_events stale_stop_batch ''u1''))] \<and>
   Max (timestamp ` set (user_events stale_stop_batch ''u1'')) = 30"
proof -
  let ?evs0 = "user_events stale_stop_batch ''u1''"
  have a: "map_sum id (map (\<lambda>s. (user_id s, start_ts s, end_ts s)))
             (build_debug_sessions stale_stop_batch) = Inr [(''u1'', 20, 30)]"
    by code_simp
  have b: "user_stops ?evs0 = [ext_stop_at 10]"
    by code_simp
  have c: "map_sum id (map (\<lambda>p. (start_ts (fst p), snd p))) (user_sessions ''u1'' ?evs0)
             = Inr [(20, 1)]"
    by code_simp
  have "?evs0 = [ext_stop_at 10, init_at 20, mk_event 30 ''ddb-da'' ''[activity] step_over'']"
    by code_simp
  then have e: "Max (timestamp ` set ?evs0) = 30"
    by (simp add: ext_stop_at_def init_at_def mk_event_def)
  have u1: "''u1'' \<noteq> []" by simp
  from session_bounds [of stale_stop_batch] u1 obtain ps where
    ps: "user_sessions ''u1'' ?evs0 = Inr ps"
    and open_end: "ps \<noteq> [] \<and>
        (\<forall>k. scan_start 0 ps (length ps - 1) \<le> k \<and> k < length (user_stops ?evs0) \<longrightarrow>
              timestamp (user_stops ?evs0 ! k) \<le> start_ts (fst (last ps))) \<longrightarrow>
        end_ts (fst (last ps)) = Max (timestamp ` set ?evs0)"
    by blast
  from c ps obtain p where p: "ps = [p]" "start_ts (fst p) = 20"
    by (cases ps) auto
  have "timestamp (ext_stop_at 10) \<le> 20"
    by (simp add: ext_stop_at_def mk_event_def)
  with open_end p b have "end_ts (fst p) = Max (timestamp ` set ?evs0)"
    by (simp add: scan_start_def)
  with ps p have d: "map_sum id (map (\<lambda>p. end_ts (fst p))) (user_sessions ''u1'' ?evs0)
             = Inr [Max (timestamp ` set ?evs0)]"
    by simp
  from a b c d e show ?thesis by (intro conjI)
qed




end
